theory Spec2Isabelle
  imports Main "HOL-Library.Word"
begin

unbundle bit_operations_syntax

section \<open>SocketCAN driver for the Panda adapter (driver/panda.c)\<close>

text \<open>
  A shallow embedding of the driver's transmit-context pool, its wire codec and its
  asynchronous TX/RX paths. The driver's private structure becomes a record that is
  passed through every function and returned updated. Calls into the kernel (queue
  control, logging, echo bookkeeping, buffer management) are recorded, in program
  order, in an event trace carried by that record, so that claims about the order of
  effects inside one function can be stated. A dereference of a null context and a
  copy that leaves its buffer are values of the type \<open>fault\<close>.

  The functions run one at a time: a state is what one call returns and the next call
  receives. Slot indices and the byte offsets of the read loop are natural numbers (they
  stay below 20 and 64), the atomic counter is an integer, the words of the wire format
  are 32-bit and 8-bit words. Format strings of log calls are recorded without their
  final newline.
\<close>

subsection \<open>Machine types and constants\<close>

type_synonym u8 = "8 word"
type_synonym u32 = "32 word"

text \<open>\<open>unsigned long\<close> statistics counters, on an LP64 kernel.\<close>
type_synonym ulong = "64 word"

definition PANDA_MAX_TX_URBS :: nat where
  "PANDA_MAX_TX_URBS = 20"

definition PANDA_CTX_FREE :: nat where
  "PANDA_CTX_FREE = PANDA_MAX_TX_URBS"

definition PANDA_CAN_TRANSMIT :: u32 where
  "PANDA_CAN_TRANSMIT = 1"

definition PANDA_CAN_EXTENDED :: u32 where
  "PANDA_CAN_EXTENDED = 4"

definition PANDA_DLC_MASK :: u32 where
  "PANDA_DLC_MASK = 0x0F"

text \<open>\<open>sizeof(struct panda_usb_can_msg)\<close>: the structure is packed, 4 + 4 + 8 bytes.\<close>
definition PANDA_MSG_SIZE :: nat where
  "PANDA_MSG_SIZE = 16"

text \<open>Constants of the kernel headers (linux/can.h, errno, netdevice.h).\<close>

definition CAN_EFF_FLAG :: u32 where
  "CAN_EFF_FLAG = 0x80000000"

definition CAN_RTR_FLAG :: u32 where
  "CAN_RTR_FLAG = 0x40000000"

definition CAN_ERR_FLAG :: u32 where
  "CAN_ERR_FLAG = 0x20000000"

definition CAN_MAX_DLC :: u8 where
  "CAN_MAX_DLC = 8"

definition ENOENT :: int where "ENOENT = 2"
definition ENOMEM :: int where "ENOMEM = 12"
definition ENODEV :: int where "ENODEV = 19"
definition ESHUTDOWN :: int where "ESHUTDOWN = 108"

definition NETDEV_TX_OK :: int where
  "NETDEV_TX_OK = 0"

subsection \<open>Data\<close>

text \<open>\<open>struct can_frame\<close>: the identifier word with its flag bits, the length code
  and the eight data bytes.\<close>
record can_frame =
  can_id :: u32
  can_dlc :: u8
  can_data :: "u8 list"

text \<open>\<open>struct panda_usb_can_msg\<close>.\<close>
record panda_usb_can_msg =
  rir :: u32
  bus_dat_len :: u32
  data :: "u8 list"

text \<open>\<open>struct panda_usb_ctx\<close>; the back pointer \<open>priv\<close> is the state record itself.
  A pointer to \<open>tx_context[i]\<close> is the index \<open>i\<close>, a null pointer is \<open>None\<close>.\<close>
record panda_usb_ctx =
  ndx :: nat
  dlc :: u8

text \<open>The counters of \<open>struct net_device_stats\<close>.\<close>
record net_device_stats =
  rx_packets :: ulong
  tx_packets :: ulong
  rx_bytes :: ulong
  tx_bytes :: ulong
  rx_errors :: ulong
  tx_errors :: ulong
  rx_dropped :: ulong
  tx_dropped :: ulong

datatype log_level = Printk | Info | Warn | Err

text \<open>Calls that leave the driver, and the accesses to the pool whose order matters.\<close>
datatype event =
    CtxReserve nat                 \<comment> \<open>\<open>ctx->ndx = i\<close>\<close>
  | CtxMarkFree nat                \<comment> \<open>\<open>ctx->ndx = PANDA_CTX_FREE\<close> on slot \<open>i\<close>\<close>
  | AtomicDec
  | AtomicInc
  | AtomicRead int
  | NetifStopQueue
  | NetifWakeQueue
  | NetifDeviceDetach
  | NetifRx can_frame
  | Log log_level string "int list"
  | CanPutEchoSkb nat
  | CanGetEchoSkb nat
  | CanFreeEchoSkb nat
  | KfreeSkb
  | UsbFreeCoherent
  | UsbAnchorUrb
  | UsbUnanchorUrb
  | UsbFreeUrb
  | UsbSubmitTx panda_usb_can_msg nat
  | UsbSubmitRx

datatype fault = NullDeref | OutOfBounds

text \<open>\<open>struct panda_priv\<close> with the parts of its \<open>net_device\<close> that the driver reads
  or writes: the statistics, the queue state and the presence bit.\<close>
record panda_priv =
  tx_context :: "panda_usb_ctx list"
  free_ctx_cnt :: int
  stats :: net_device_stats
  queue_stopped :: bool
  device_present :: bool
  trace :: "event list"

text \<open>What the USB core answers to one transmit: whether \<open>usb_alloc_urb\<close> and
  \<open>usb_alloc_coherent\<close> return memory, and the result of \<open>usb_submit_urb\<close>.\<close>
record usb_env =
  alloc_urb_ok :: bool
  alloc_buf_ok :: bool
  submit_err :: int

text \<open>The fields of an interrupt-IN \<open>struct urb\<close> that the read callback uses.\<close>
record rx_urb =
  status :: int
  transfer_buffer :: "u8 list"
  actual_length :: nat

subsection \<open>Kernel services\<close>

definition emit :: "event \<Rightarrow> panda_priv \<Rightarrow> panda_priv" where
  "emit e p = p\<lparr>trace := trace p @ [e]\<rparr>"

definition netif_stop_queue :: "panda_priv \<Rightarrow> panda_priv" where
  "netif_stop_queue p = emit NetifStopQueue (p\<lparr>queue_stopped := True\<rparr>)"

definition netif_wake_queue :: "panda_priv \<Rightarrow> panda_priv" where
  "netif_wake_queue p = emit NetifWakeQueue (p\<lparr>queue_stopped := False\<rparr>)"

definition netif_device_detach :: "panda_priv \<Rightarrow> panda_priv" where
  "netif_device_detach p = emit NetifDeviceDetach (p\<lparr>device_present := False\<rparr>)"

definition atomic_dec :: "panda_priv \<Rightarrow> panda_priv" where
  "atomic_dec p = emit AtomicDec (p\<lparr>free_ctx_cnt := free_ctx_cnt p - 1\<rparr>)"

definition atomic_inc :: "panda_priv \<Rightarrow> panda_priv" where
  "atomic_inc p = emit AtomicInc (p\<lparr>free_ctx_cnt := free_ctx_cnt p + 1\<rparr>)"

text \<open>\<open>atomic_read\<close> returns the counter and leaves its mark in the trace.\<close>
definition atomic_read :: "panda_priv \<Rightarrow> int \<times> panda_priv" where
  "atomic_read p = (free_ctx_cnt p, emit (AtomicRead (free_ctx_cnt p)) p)"

text \<open>\<open>cpu_to_le32\<close> of the kernel headers, on a little-endian host: the identity.
  The receive path reads the fields of the message without a conversion, so the host's
  byte order is the wire's.\<close>
definition cpu_to_le32 :: "u32 \<Rightarrow> u32" where
  "cpu_to_le32 x = x"

text \<open>\<open>get_can_dlc(i)\<close> of linux/can/dev.h: \<open>min_t(__u8, i, CAN_MAX_DLC)\<close>.\<close>
definition get_can_dlc :: "u32 \<Rightarrow> u8" where
  "get_can_dlc i = min (ucast i) CAN_MAX_DLC"

text \<open>\<open>memcpy(dst, src, n)\<close> on two byte arrays: the first \<open>n\<close> bytes of \<open>dst\<close> are
  replaced. A copy that would leave either array is a fault.\<close>
definition memcpy :: "u8 list \<Rightarrow> u8 list \<Rightarrow> nat \<Rightarrow> fault + u8 list" where
  "memcpy dst src n =
     (if n \<le> length src \<and> n \<le> length dst then Inr (take n src @ drop n dst)
      else Inl OutOfBounds)"

text \<open>\<open>can_dropped_invalid_skb\<close> of linux/can/dev.h, for a classic CAN frame: a frame
  whose length exceeds eight bytes is freed and counted in \<open>tx_dropped\<close>.\<close>
definition can_dropped_invalid_skb :: "panda_priv \<Rightarrow> can_frame \<Rightarrow> bool \<times> panda_priv" where
  "can_dropped_invalid_skb p cf =
     (if unat (can_dlc cf) > 8
      then (True, (emit KfreeSkb p)\<lparr>stats := (stats p)\<lparr>tx_dropped := tx_dropped (stats p) + 1\<rparr>\<rparr>)
      else (False, p))"

subsection \<open>Context pool\<close>

function init_ctx_loop :: "nat \<Rightarrow> panda_usb_ctx list \<Rightarrow> panda_usb_ctx list" where
  "init_ctx_loop i ctxs =
     (if i < PANDA_MAX_TX_URBS
      then init_ctx_loop (Suc i) (ctxs[i := (ctxs ! i)\<lparr>ndx := PANDA_CTX_FREE\<rparr>])
      else ctxs)"
  by pat_completeness auto
termination
  by (relation "measure (\<lambda>(i, ctxs). PANDA_MAX_TX_URBS - i)") auto

definition panda_init_ctx :: "panda_priv \<Rightarrow> panda_priv" where
  "panda_init_ctx p =
     p\<lparr>tx_context := init_ctx_loop 0 (tx_context p),
       free_ctx_cnt := int PANDA_MAX_TX_URBS\<rparr>"

text \<open>The scan of \<open>panda_usb_get_free_ctx\<close>: the index of the first free slot at or
  after \<open>i\<close>, or \<open>None\<close> when the loop runs to its end (\<open>ctx\<close> stays null).\<close>
function find_free_ctx :: "nat \<Rightarrow> panda_usb_ctx list \<Rightarrow> nat option" where
  "find_free_ctx i ctxs =
     (if i < PANDA_MAX_TX_URBS
      then (if ndx (ctxs ! i) = PANDA_CTX_FREE then Some i else find_free_ctx (Suc i) ctxs)
      else None)"
  by pat_completeness auto
termination
  by (relation "measure (\<lambda>(i, ctxs). PANDA_MAX_TX_URBS - i)") auto

definition panda_usb_get_free_ctx :: "panda_priv \<Rightarrow> can_frame \<Rightarrow> nat option \<times> panda_priv" where
  "panda_usb_get_free_ctx p cf =
     (let (ctx, p1) =
        (case find_free_ctx 0 (tx_context p) of
           None \<Rightarrow> (None, p)
         | Some i \<Rightarrow>
             (Some i,
              atomic_dec
                (emit (CtxReserve i)
                   (p\<lparr>tx_context := (tx_context p)[i := \<lparr>ndx = i, dlc = can_dlc cf\<rparr>]\<rparr>))));
        (n, p2) = atomic_read p1;
        p3 = emit (Log Printk ''CTX num %d'' [n]) p2;
        (z, p4) = atomic_read p3
      in if z = 0
         then (ctx, netif_stop_queue (emit (Log Printk ''SENDING TOO FAST'' []) p4))
         else (ctx, p4))"

definition panda_usb_free_ctx :: "panda_priv \<Rightarrow> nat \<Rightarrow> panda_priv" where
  "panda_usb_free_ctx p ctx =
     (let p1 = atomic_inc p;
          p2 = emit (CtxMarkFree ctx)
                 (p1\<lparr>tx_context := (tx_context p1)[ctx := (tx_context p1 ! ctx)\<lparr>ndx := PANDA_CTX_FREE\<rparr>]\<rparr>)
      in netif_wake_queue p2)"

text \<open>Sequences of pool operations: \<open>Acquire\<close> is a call of
  \<open>panda_usb_get_free_ctx\<close>, \<open>Release h\<close> a call of \<open>panda_usb_free_ctx\<close> on the handle
  \<open>h\<close>. The second component of the state lists the handles that were handed out and
  not yet given back; a release of a handle that is not in that list leaves the
  protocol, and the run is \<open>None\<close>.\<close>
datatype pool_op = Acquire can_frame | Release nat

fun run_pool :: "pool_op list \<Rightarrow> panda_priv \<times> nat list \<Rightarrow> (panda_priv \<times> nat list) option" where
  "run_pool [] s = Some s"
| "run_pool (Acquire cf # ops) (p, live) =
     (case panda_usb_get_free_ctx p cf of
        (None, p') \<Rightarrow> run_pool ops (p', live)
      | (Some i, p') \<Rightarrow> run_pool ops (p', i # live))"
| "run_pool (Release h # ops) (p, live) =
     (if h \<in> set live then run_pool ops (panda_usb_free_ctx p h, remove1 h live) else None)"

text \<open>The number of slots of the array that are marked free.\<close>
definition free_slots :: "panda_priv \<Rightarrow> nat" where
  "free_slots p = length (filter (\<lambda>c. ndx c = PANDA_CTX_FREE) (tx_context p))"

subsection \<open>Wire codec\<close>

text \<open>The packing of \<open>panda_usb_start_xmit\<close> into the zero-initialised \<open>usb_msg\<close>.
  \<open>xmit_rir\<close> is the value the \<open>if\<close>/\<open>else\<close> on \<open>CAN_EFF_FLAG\<close> stores in \<open>rir\<close>,
  \<open>xmit_bus_dat_len\<close> the value stored in \<open>bus_dat_len\<close>; \<open>bus\<close> is the local
  variable of that function, always 0.\<close>
definition xmit_rir :: "u32 \<Rightarrow> u32" where
  "xmit_rir cid =
     (if cid AND CAN_EFF_FLAG \<noteq> 0
      then cpu_to_le32 (push_bit 3 (cid AND 0x1FFFFFFF) OR PANDA_CAN_TRANSMIT OR PANDA_CAN_EXTENDED)
      else cpu_to_le32 (push_bit 21 (cid AND 0x7FF) OR PANDA_CAN_TRANSMIT))"

definition xmit_bus_dat_len :: "u8 \<Rightarrow> u32" where
  "xmit_bus_dat_len d = (let bus = (0 :: u32) in cpu_to_le32 ((ucast d AND 0x0F) OR push_bit 4 bus))"

definition encode_frame :: "can_frame \<Rightarrow> fault + panda_usb_can_msg" where
  "encode_frame cf =
     (let usb_msg = \<lparr>rir = 0, bus_dat_len = 0, data = replicate 8 0\<rparr>;
          usb_msg = usb_msg\<lparr>rir := xmit_rir (can_id cf)\<rparr>;
          usb_msg = usb_msg\<lparr>bus_dat_len := xmit_bus_dat_len (can_dlc cf)\<rparr>
      in case memcpy (data usb_msg) (can_data cf) (unat (can_dlc cf)) of
           Inl f \<Rightarrow> Inl f
         | Inr d \<Rightarrow> Inr (usb_msg\<lparr>data := d\<rparr>))"

text \<open>The unpacking of \<open>panda_usb_process_can_rx\<close> into the frame that
  \<open>alloc_can_skb\<close> returns zeroed. \<open>rx_can_id\<close> is the value the \<open>if\<close>/\<open>else\<close> on
  \<open>PANDA_CAN_EXTENDED\<close> stores in \<open>can_id\<close>.\<close>
definition rx_can_id :: "u32 \<Rightarrow> u32" where
  "rx_can_id r =
     (if r AND PANDA_CAN_EXTENDED \<noteq> 0
      then drop_bit 3 r OR CAN_EFF_FLAG
      else drop_bit 21 r)"

definition decode_msg :: "panda_usb_can_msg \<Rightarrow> fault + can_frame" where
  "decode_msg msg =
     (let cf = \<lparr>can_id = 0, can_dlc = 0, can_data = replicate 8 0\<rparr>;
          cf = cf\<lparr>can_id := rx_can_id (rir msg)\<rparr>;
          cf = cf\<lparr>can_dlc := get_can_dlc (bus_dat_len msg AND PANDA_DLC_MASK)\<rparr>
      in case memcpy (can_data cf) (data msg) (unat (can_dlc cf)) of
           Inl f \<Rightarrow> Inl f
         | Inr d \<Rightarrow> Inr (cf\<lparr>can_data := d\<rparr>))"

subsection \<open>Transmit path\<close>

definition panda_usb_write_bulk_callback :: "panda_priv \<Rightarrow> int \<Rightarrow> nat option \<Rightarrow> fault + panda_priv" where
  "panda_usb_write_bulk_callback p urb_status context =
     (case context of
        None \<Rightarrow> Inl NullDeref
      | Some ctx \<Rightarrow>
          (let p1 = emit UsbFreeCoherent p
           in if \<not> device_present p1 then Inr p1
              else
                (let p2 = p1\<lparr>stats := (stats p1)\<lparr>tx_packets := tx_packets (stats p1) + 1\<rparr>\<rparr>;
                     p3 = p2\<lparr>stats := (stats p2)\<lparr>tx_bytes :=
                            tx_bytes (stats p2) + ucast (dlc (tx_context p2 ! ctx))\<rparr>\<rparr>;
                     p4 = emit (CanGetEchoSkb (ndx (tx_context p3 ! ctx))) p3;
                     p5 = (if urb_status \<noteq> 0
                           then emit (Log Info ''Tx URB aborted (%d)'' [urb_status]) p4
                           else p4)
                 in Inr (panda_usb_free_ctx p5 ctx))))"

definition panda_usb_xmit ::
  "usb_env \<Rightarrow> panda_priv \<Rightarrow> panda_usb_can_msg \<Rightarrow> nat \<Rightarrow> int \<times> panda_priv" where
  "panda_usb_xmit env p usb_msg ctx =
     (if \<not> alloc_urb_ok env then (- ENOMEM, p)
      else if \<not> alloc_buf_ok env then (- ENOMEM, emit UsbFreeUrb p)
      else
        (let p1 = emit UsbAnchorUrb p;
             err = submit_err env
         in if err \<noteq> 0
            then
              (let p2 = emit UsbFreeCoherent (emit UsbUnanchorUrb p1);
                   p3 = (if err = - ENODEV then netif_device_detach p2
                         else emit (Log Warn ''failed tx_urb %d'' [err]) p2)
               in (err, emit UsbFreeUrb p3))
            else (0, emit UsbFreeUrb (emit (UsbSubmitTx usb_msg ctx) p1))))"

definition panda_usb_start_xmit ::
  "usb_env \<Rightarrow> panda_priv \<Rightarrow> can_frame \<Rightarrow> fault + (int \<times> panda_priv)" where
  "panda_usb_start_xmit env p cf =
     (case can_dropped_invalid_skb p cf of
        (True, p0) \<Rightarrow> Inr (NETDEV_TX_OK, emit (Log Printk ''Invalid CAN packet'' []) p0)
      | (False, p0) \<Rightarrow>
          (case panda_usb_get_free_ctx p0 cf of
             (None, p1) \<Rightarrow> Inl NullDeref
           | (Some ctx, p1) \<Rightarrow>
               (let p2 = emit (CanPutEchoSkb (ndx (tx_context p1 ! ctx))) p1
                in case encode_frame cf of
                     Inl f \<Rightarrow> Inl f
                   | Inr usb_msg \<Rightarrow>
                       (let p3 = emit (Log Err ''Received data from socket. canid: %x; len: %d''
                                         [uint (can_id cf), uint (can_dlc cf)]) p2;
                            (err, p4) = panda_usb_xmit env p3 usb_msg ctx
                        in if err \<noteq> 0
                           then
                             (let p5 = emit (CanFreeEchoSkb (ndx (tx_context p4 ! ctx))) p4;
                                  p6 = panda_usb_free_ctx p5 ctx;
                                  p7 = emit KfreeSkb p6
                              in Inr (NETDEV_TX_OK,
                                      p7\<lparr>stats := (stats p7)\<lparr>tx_dropped := tx_dropped (stats p7) + 1\<rparr>\<rparr>))
                           else Inr (NETDEV_TX_OK, p4)))))"

subsection \<open>Receive path\<close>

text \<open>\<open>skb_ok\<close> is whether \<open>alloc_can_skb\<close> returns a buffer.\<close>
definition panda_usb_process_can_rx ::
  "panda_priv \<Rightarrow> bool \<Rightarrow> panda_usb_can_msg \<Rightarrow> fault + panda_priv" where
  "panda_usb_process_can_rx p skb_ok msg =
     (if \<not> skb_ok then Inr p
      else
        (case decode_msg msg of
           Inl f \<Rightarrow> Inl f
         | Inr cf \<Rightarrow>
             (let p1 = p\<lparr>stats := (stats p)\<lparr>rx_packets := rx_packets (stats p) + 1\<rparr>\<rparr>;
                  p2 = p1\<lparr>stats := (stats p1)\<lparr>rx_bytes := rx_bytes (stats p1) + ucast (can_dlc cf)\<rparr>\<rparr>
              in Inr (emit (NetifRx cf) p2))))"

text \<open>A 32-bit field read from the buffer on a little-endian host.\<close>
definition le32 :: "u8 list \<Rightarrow> u32" where
  "le32 bs = foldr (\<lambda>b w. ucast b OR push_bit 8 w) bs 0"

text \<open>The cast \<open>(struct panda_usb_can_msg *)(urb->transfer_buffer + pos)\<close> and the
  reads through it: \<open>read_msg\<close> lays the packed structure over the sixteen bytes at
  \<open>pos\<close>, and \<open>msg_at\<close> faults when they are not all inside the buffer.\<close>
definition read_msg :: "u8 list \<Rightarrow> nat \<Rightarrow> panda_usb_can_msg" where
  "read_msg buf pos =
     \<lparr>rir = le32 (take 4 (drop pos buf)),
      bus_dat_len = le32 (take 4 (drop (pos + 4) buf)),
      data = take 8 (drop (pos + 8) buf)\<rparr>"

definition msg_at :: "u8 list \<Rightarrow> nat \<Rightarrow> fault + panda_usb_can_msg" where
  "msg_at buf pos =
     (if pos + PANDA_MSG_SIZE \<le> length buf then Inr (read_msg buf pos) else Inl OutOfBounds)"

text \<open>The \<open>while\<close> loop of \<open>panda_usb_read_int_callback\<close>. \<open>alloc n\<close> is whether
  \<open>alloc_can_skb\<close> returns a buffer for the \<open>n\<close>-th message of this completion, counted
  as \<open>num_recv\<close> counts them.\<close>
function rx_loop ::
  "(nat \<Rightarrow> bool) \<Rightarrow> rx_urb \<Rightarrow> nat \<Rightarrow> nat \<Rightarrow> panda_priv \<Rightarrow> fault + panda_priv" where
  "rx_loop alloc urb pos num_recv p =
     (if pos < actual_length urb
      then
        (if pos + PANDA_MSG_SIZE > actual_length urb
         then Inr (emit (Log Err ''format error'' []) p)
         else
           (case msg_at (transfer_buffer urb) pos of
              Inl f \<Rightarrow> Inl f
            | Inr msg \<Rightarrow>
                (case panda_usb_process_can_rx p (alloc (Suc num_recv)) msg of
                   Inl f \<Rightarrow> Inl f
                 | Inr p' \<Rightarrow> rx_loop alloc urb (pos + PANDA_MSG_SIZE) (Suc num_recv) p')))
      else Inr p)"
  by pat_completeness auto
termination
  by (relation "measure (\<lambda>(alloc, urb, pos, num_recv, p). actual_length urb - pos)")
     (auto simp: PANDA_MSG_SIZE_def)

text \<open>The label \<open>resubmit_urb\<close>; \<open>retval\<close> is the result of \<open>usb_submit_urb\<close>.\<close>
definition resubmit_urb :: "int \<Rightarrow> panda_priv \<Rightarrow> panda_priv" where
  "resubmit_urb retval p =
     (let p1 = emit UsbSubmitRx p
      in if retval = - ENODEV then netif_device_detach p1
         else if retval \<noteq> 0
         then emit (Log Err ''failed resubmitting read bulk urb: %d'' [retval]) p1
         else p1)"

definition panda_usb_read_int_callback ::
  "(nat \<Rightarrow> bool) \<Rightarrow> int \<Rightarrow> panda_priv \<Rightarrow> rx_urb \<Rightarrow> fault + panda_priv" where
  "panda_usb_read_int_callback alloc retval p urb =
     (if \<not> device_present p then Inr p
      else if status urb = 0
      then
        (case rx_loop alloc urb 0 0 p of
           Inl f \<Rightarrow> Inl f
         | Inr p' \<Rightarrow> Inr (resubmit_urb retval p'))
      else if status urb = - ENOENT \<or> status urb = - ESHUTDOWN then Inr p
      else Inr (resubmit_urb retval (emit (Log Info ''Rx URB aborted (%d)'' [status urb]) p)))"

text \<open>The complete messages at the head of a received buffer, and their processing one
  after the other from message number \<open>n + 1\<close> on.\<close>
definition leading_msgs :: "rx_urb \<Rightarrow> panda_usb_can_msg list" where
  "leading_msgs urb =
     map (\<lambda>k. read_msg (transfer_buffer urb) (PANDA_MSG_SIZE * k))
       [0 ..< actual_length urb div PANDA_MSG_SIZE]"

fun process_all ::
  "(nat \<Rightarrow> bool) \<Rightarrow> nat \<Rightarrow> panda_usb_can_msg list \<Rightarrow> panda_priv \<Rightarrow> fault + panda_priv" where
  "process_all alloc n [] p = Inr p"
| "process_all alloc n (msg # msgs) p =
     (case panda_usb_process_can_rx p (alloc (Suc n)) msg of
        Inl f \<Rightarrow> Inl f
      | Inr p' \<Rightarrow> process_all alloc (Suc n) msgs p')"

text \<open>The frames handed to \<open>netif_rx\<close>, in the order of the trace.\<close>
fun delivered :: "event list \<Rightarrow> can_frame list" where
  "delivered [] = []"
| "delivered (NetifRx cf # es) = cf # delivered es"
| "delivered (e # es) = delivered es"

subsection \<open>Derived notions used in the statements and proofs\<close>

text \<open>The net effect of the two halves of \<open>panda_usb_get_free_ctx\<close>: the reservation
  of slot \<open>i\<close> inside the loop, and the test of the counter after it.\<close>
definition reserve_ctx :: "panda_priv \<Rightarrow> can_frame \<Rightarrow> nat \<Rightarrow> panda_priv" where
  "reserve_ctx p cf i = p\<lparr>tx_context := (tx_context p)[i := \<lparr>ndx = i, dlc = can_dlc cf\<rparr>],
       free_ctx_cnt := free_ctx_cnt p - 1,
       trace := trace p @ [CtxReserve i, AtomicDec]\<rparr>"

definition check_last :: "panda_priv \<Rightarrow> panda_priv" where
  "check_last p = (if free_ctx_cnt p = 0 then
     p\<lparr>queue_stopped := True, trace := trace p @ [AtomicRead 0, Log Printk ''CTX num %d'' [0],
        AtomicRead 0, Log Printk ''SENDING TOO FAST'' [], NetifStopQueue]\<rparr>
    else p\<lparr>trace := trace p @ [AtomicRead (free_ctx_cnt p), Log Printk ''CTX num %d'' [free_ctx_cnt p],
        AtomicRead (free_ctx_cnt p)]\<rparr>)"

text \<open>The pool invariant relative to the list of live handles: a slot is marked with
  its own index exactly when its handle is live, with \<open>PANDA_CTX_FREE\<close> otherwise, and
  the counter is the number of slots that are not live.\<close>
definition pool_inv :: "panda_priv \<Rightarrow> nat list \<Rightarrow> bool" where
  "pool_inv p live \<longleftrightarrow>
     length (tx_context p) = PANDA_MAX_TX_URBS \<and> distinct live \<and>
     (\<forall>h \<in> set live. h < PANDA_MAX_TX_URBS) \<and>
     (\<forall>i < PANDA_MAX_TX_URBS. ndx (tx_context p ! i) = (if i \<in> set live then i else PANDA_CTX_FREE)) \<and>
     free_ctx_cnt p = int PANDA_MAX_TX_URBS - int (length live)"


text \<open>A device as \<open>alloc_candev\<close> returns it (zeroed), and a standard frame.\<close>
definition zero_stats :: net_device_stats where
  "zero_stats = \<lparr>rx_packets = 0, tx_packets = 0, rx_bytes = 0, tx_bytes = 0,
                  rx_errors = 0, tx_errors = 0, rx_dropped = 0, tx_dropped = 0\<rparr>"

definition probe_priv :: panda_priv where
  "probe_priv = \<lparr>tx_context = replicate 20 \<lparr>ndx = 0, dlc = 0\<rparr>, free_ctx_cnt = 0,
                  stats = zero_stats, queue_stopped = False, device_present = True,
                  trace = []\<rparr>"

definition frame_123 :: can_frame where
  "frame_123 = \<lparr>can_id = 0x123, can_dlc = 3, can_data = [0x11, 0x22, 0x33, 0, 0, 0, 0, 0]\<rparr>"

text \<open>A pool with slot 19 as its only free slot; the pool after one acquire; and that
  pool on a device that has been detached.\<close>
definition last_slot_priv :: panda_priv where
  "last_slot_priv =
     probe_priv\<lparr>tx_context := map (\<lambda>i. \<lparr>ndx = i, dlc = 0\<rparr>) [0 ..< 19] @ [\<lparr>ndx = 20, dlc = 0\<rparr>],
                free_ctx_cnt := 1\<rparr>"

definition one_busy_priv :: panda_priv where
  "one_busy_priv = snd (panda_usb_get_free_ctx (panda_init_ctx probe_priv) frame_123)"

definition gone_priv :: panda_priv where
  "gone_priv = one_busy_priv\<lparr>device_present := False\<rparr>"

text \<open>An extended frame with eight data bytes, and a wire message whose length field
  holds 15.\<close>
definition frame_ext :: can_frame where
  "frame_ext = \<lparr>can_id = 0x98765432, can_dlc = 8,
                 can_data = [0xDE, 0xAD, 0xBE, 0xEF, 0x01, 0x02, 0x03, 0x04]\<rparr>"

definition msg_dlc15 :: panda_usb_can_msg where
  "msg_dlc15 = \<lparr>rir = 0x24600001, bus_dat_len = 0x0F,
                 data = [0x01, 0x02, 0x03, 0x04, 0x05, 0x06, 0x07, 0x08]\<rparr>"

text \<open>The answers of the USB core under which \<open>panda_usb_xmit\<close> returns an error.\<close>
definition xmit_fails :: "usb_env \<Rightarrow> bool" where
  "xmit_fails env \<longleftrightarrow> \<not> alloc_urb_ok env \<or> \<not> alloc_buf_ok env \<or> submit_err env \<noteq> 0"

text \<open>The pool after twenty acquires with no release, with its live handles; and a USB
  core that has no memory for the transfer buffer.\<close>
definition full_priv :: panda_priv where
  "full_priv = fst (the (run_pool (replicate 20 (Acquire frame_123)) (panda_init_ctx probe_priv, [])))"

definition full_live :: "nat list" where
  "full_live = snd (the (run_pool (replicate 20 (Acquire frame_123)) (panda_init_ctx probe_priv, [])))"

definition enomem_env :: usb_env where
  "enomem_env = \<lparr>alloc_urb_ok = True, alloc_buf_ok = False, submit_err = 0\<rparr>"

text \<open>A completed read of 37 bytes (two messages and five more bytes), a read of five
  bytes, a frame with a length code of 9, and the frame that the message with length
  field 15 decodes to.\<close>
definition rx_urb_3 :: rx_urb where
  "rx_urb_3 = \<lparr>status = 0,
      transfer_buffer =
        [0x01, 0x00, 0x60, 0x24, 0x03, 0x00, 0x00, 0x00, 0x11, 0x22, 0x33, 0x00, 0x00, 0x00, 0x00, 0x00,
         0x95, 0xA2, 0xB3, 0xC3, 0x0F, 0x00, 0x00, 0x00, 0xDE, 0xAD, 0xBE, 0xEF, 0x01, 0x02, 0x03, 0x04,
         0xAA, 0xBB, 0xCC, 0xDD, 0xEE] @ replicate 27 0,
      actual_length = 37\<rparr>"

definition rx_urb_tail :: rx_urb where
  "rx_urb_tail = \<lparr>status = 0, transfer_buffer = [0xAA, 0xBB, 0xCC, 0xDD, 0xEE] @ replicate 59 0,
                   actual_length = 5\<rparr>"

definition frame_dlc9 :: can_frame where
  "frame_dlc9 = \<lparr>can_id = 0x123, can_dlc = 9, can_data = [0x11, 0x22, 0x33, 0, 0, 0, 0, 0]\<rparr>"

definition frame_of_msg_dlc15 :: can_frame where
  "frame_of_msg_dlc15 = \<lparr>can_id = 0x123, can_dlc = 8,
                          can_data = [0x01, 0x02, 0x03, 0x04, 0x05, 0x06, 0x07, 0x08]\<rparr>"

section \<open>Properties\<close>

declare init_ctx_loop.simps [simp del]
declare find_free_ctx.simps [simp del]
declare rx_loop.simps [simp del]

subsection \<open>Context pool\<close>

lemma get_free_ctx_None:
  "find_free_ctx 0 (tx_context p) = None \<Longrightarrow> panda_usb_get_free_ctx p cf = (None, check_last p)"
  by (simp add: panda_usb_get_free_ctx_def check_last_def Let_def netif_stop_queue_def atomic_read_def emit_def)

lemma get_free_ctx_Some:
  "find_free_ctx 0 (tx_context p) = Some i \<Longrightarrow>
   panda_usb_get_free_ctx p cf = (Some i, check_last (reserve_ctx p cf i))"
  by (simp add: panda_usb_get_free_ctx_def check_last_def reserve_ctx_def Let_def netif_stop_queue_def
      atomic_dec_def atomic_read_def emit_def)

lemma check_last_fields [simp]:
  "tx_context (check_last p) = tx_context p"
  "free_ctx_cnt (check_last p) = free_ctx_cnt p"
  "stats (check_last p) = stats p"
  "device_present (check_last p) = device_present p"
  by (simp_all add: check_last_def)

lemma reserve_ctx_fields [simp]:
  "tx_context (reserve_ctx p cf i) = (tx_context p)[i := \<lparr>ndx = i, dlc = can_dlc cf\<rparr>]"
  "free_ctx_cnt (reserve_ctx p cf i) = free_ctx_cnt p - 1"
  "stats (reserve_ctx p cf i) = stats p"
  "device_present (reserve_ctx p cf i) = device_present p"
  "queue_stopped (reserve_ctx p cf i) = queue_stopped p"
  "trace (reserve_ctx p cf i) = trace p @ [CtxReserve i, AtomicDec]"
  by (simp_all add: reserve_ctx_def)

lemma free_ctx_fields [simp]:
  "tx_context (panda_usb_free_ctx p h) = (tx_context p)[h := (tx_context p ! h)\<lparr>ndx := PANDA_CTX_FREE\<rparr>]"
  "free_ctx_cnt (panda_usb_free_ctx p h) = free_ctx_cnt p + 1"
  "stats (panda_usb_free_ctx p h) = stats p"
  "device_present (panda_usb_free_ctx p h) = device_present p"
  "queue_stopped (panda_usb_free_ctx p h) = False"
  "trace (panda_usb_free_ctx p h) = trace p @ [AtomicInc, CtxMarkFree h, NetifWakeQueue]"
  by (simp_all add: panda_usb_free_ctx_def Let_def netif_wake_queue_def atomic_inc_def emit_def)

lemma find_free_ctx_Some:
  "find_free_ctx i ctxs = Some j \<Longrightarrow>
   i \<le> j \<and> j < PANDA_MAX_TX_URBS \<and> ndx (ctxs ! j) = PANDA_CTX_FREE \<and>
   (\<forall>k. i \<le> k \<and> k < j \<longrightarrow> ndx (ctxs ! k) \<noteq> PANDA_CTX_FREE)"
proof (induction i ctxs rule: find_free_ctx.induct)
  case (1 i ctxs)
  show ?case
  proof (cases "i < PANDA_MAX_TX_URBS \<and> ndx (ctxs ! i) \<noteq> PANDA_CTX_FREE")
    case True
    with "1.prems" have "find_free_ctx (Suc i) ctxs = Some j"
      by (subst (asm) find_free_ctx.simps) simp
    with True "1.IH" have ih: "Suc i \<le> j \<and> j < PANDA_MAX_TX_URBS \<and> ndx (ctxs ! j) = PANDA_CTX_FREE \<and>
       (\<forall>k. Suc i \<le> k \<and> k < j \<longrightarrow> ndx (ctxs ! k) \<noteq> PANDA_CTX_FREE)" by simp
    have "ndx (ctxs ! k) \<noteq> PANDA_CTX_FREE" if "i \<le> k" "k < j" for k
    proof (cases "k = i")
      case True with \<open>i < PANDA_MAX_TX_URBS \<and> ndx (ctxs ! i) \<noteq> PANDA_CTX_FREE\<close> show ?thesis by simp
    next
      case False with that ih show ?thesis by simp
    qed
    with ih show ?thesis by simp
  next
    case False
    with "1.prems" show ?thesis
      by (subst (asm) find_free_ctx.simps) (auto split: if_splits)
  qed
qed

lemma find_free_ctx_None:
  "find_free_ctx i ctxs = None \<Longrightarrow> i \<le> k \<Longrightarrow> k < PANDA_MAX_TX_URBS \<Longrightarrow> ndx (ctxs ! k) \<noteq> PANDA_CTX_FREE"
proof (induction i ctxs rule: find_free_ctx.induct)
  case (1 i ctxs)
  from "1.prems" have i: "i < PANDA_MAX_TX_URBS" by simp
  from "1.prems"(1) i have nf: "ndx (ctxs ! i) \<noteq> PANDA_CTX_FREE" and rest: "find_free_ctx (Suc i) ctxs = None"
    by (subst (asm) find_free_ctx.simps, simp split: if_splits)+
  show ?case
  proof (cases "k = i")
    case True with nf show ?thesis by simp
  next
    case False
    with "1.prems" have "Suc i \<le> k" by simp
    with "1.IH" i nf rest "1.prems" show ?thesis by simp
  qed
qed

lemma find_free_ctx_exists:
  "i \<le> k \<Longrightarrow> k < PANDA_MAX_TX_URBS \<Longrightarrow> ndx (ctxs ! k) = PANDA_CTX_FREE \<Longrightarrow> \<exists>j. find_free_ctx i ctxs = Some j"
  using find_free_ctx_None [of i ctxs k] by (cases "find_free_ctx i ctxs") auto

lemma init_ctx_loop_length [simp]: "length (init_ctx_loop i ctxs) = length ctxs"
proof (induction i ctxs rule: init_ctx_loop.induct)
  case (1 i ctxs)
  then show ?case by (subst init_ctx_loop.simps) simp
qed

lemma init_ctx_loop_nth:
  "length ctxs = PANDA_MAX_TX_URBS \<Longrightarrow> k < PANDA_MAX_TX_URBS \<Longrightarrow>
   init_ctx_loop i ctxs ! k = (if i \<le> k then (ctxs ! k)\<lparr>ndx := PANDA_CTX_FREE\<rparr> else ctxs ! k)"
proof (induction i ctxs arbitrary: k rule: init_ctx_loop.induct)
  case (1 i ctxs)
  show ?case
  proof (cases "i < PANDA_MAX_TX_URBS")
    case True
    have "init_ctx_loop i ctxs = init_ctx_loop (Suc i) (ctxs[i := (ctxs ! i)\<lparr>ndx := PANDA_CTX_FREE\<rparr>])"
      using True by (subst init_ctx_loop.simps) simp
    moreover have "init_ctx_loop (Suc i) (ctxs[i := (ctxs ! i)\<lparr>ndx := PANDA_CTX_FREE\<rparr>]) ! k =
       (if Suc i \<le> k then (ctxs[i := (ctxs ! i)\<lparr>ndx := PANDA_CTX_FREE\<rparr>] ! k)\<lparr>ndx := PANDA_CTX_FREE\<rparr>
        else ctxs[i := (ctxs ! i)\<lparr>ndx := PANDA_CTX_FREE\<rparr>] ! k)"
      using "1.IH" [OF True, of k] "1.prems" by simp
    ultimately show ?thesis using "1.prems" True
      by (cases "k = i") (auto simp: nth_list_update)
  next
    case False
    with "1.prems" show ?thesis by (subst init_ctx_loop.simps) simp
  qed
qed

lemma pool_inv_init:
  "length (tx_context p0) = PANDA_MAX_TX_URBS \<Longrightarrow> pool_inv (panda_init_ctx p0) []"
  by (simp add: pool_inv_def panda_init_ctx_def init_ctx_loop_nth)

lemma pool_inv_acquire:
  assumes "pool_inv p live" and "panda_usb_get_free_ctx p cf = (Some i, p')"
  shows "pool_inv p' (i # live)"
proof -
  from assms(2) have f: "find_free_ctx 0 (tx_context p) = Some i"
    by (cases "find_free_ctx 0 (tx_context p)") (simp_all add: get_free_ctx_None get_free_ctx_Some)
  then have p': "p' = check_last (reserve_ctx p cf i)"
    using assms(2) by (simp add: get_free_ctx_Some)
  from find_free_ctx_Some [OF f] have i: "i < PANDA_MAX_TX_URBS" and fr: "ndx (tx_context p ! i) = PANDA_CTX_FREE"
    by simp_all
  from assms(1) i fr have "i \<notin> set live"
    by (auto simp: pool_inv_def PANDA_CTX_FREE_def)
  with assms(1) i show ?thesis
    unfolding p' by (auto simp: pool_inv_def nth_list_update)
qed

lemma pool_inv_acquire_None:
  assumes "pool_inv p live" and "panda_usb_get_free_ctx p cf = (None, p')"
  shows "pool_inv p' live"
proof -
  from assms(2) have f: "find_free_ctx 0 (tx_context p) = None"
    by (cases "find_free_ctx 0 (tx_context p)") (simp_all add: get_free_ctx_None get_free_ctx_Some)
  then have p': "p' = check_last p"
    using assms(2) by (simp add: get_free_ctx_None)
  with assms(1) show ?thesis
    by (simp add: pool_inv_def)
qed

lemma pool_inv_release:
  assumes "pool_inv p live" and "h \<in> set live"
  shows "pool_inv (panda_usb_free_ctx p h) (remove1 h live)"
proof -
  from assms have d: "distinct live" and h: "h < PANDA_MAX_TX_URBS"
    by (auto simp: pool_inv_def)
  from d have s: "set (remove1 h live) = set live - {h}" by simp
  from assms(2) have "0 < length live" by (cases live) auto
  then have "int (length live - 1) = int (length live) - 1" by linarith
  with assms(2) have l: "int (length (remove1 h live)) = int (length live) - 1"
    by (simp add: length_remove1)
  from assms(1) d h show ?thesis
    unfolding pool_inv_def s l by (auto simp: nth_list_update)
qed

lemma pool_inv_run:
  "pool_inv p live \<Longrightarrow> run_pool ops (p, live) = Some (p', live') \<Longrightarrow> pool_inv p' live'"
proof (induction ops arbitrary: p live)
  case Nil
  then show ?case by simp
next
  case (Cons op ops)
  show ?case
  proof (cases op)
    case (Acquire cf)
    obtain r q where g: "panda_usb_get_free_ctx p cf = (r, q)" by (cases "panda_usb_get_free_ctx p cf")
    show ?thesis
    proof (cases r)
      case None
      with g Cons.prems(1) have "pool_inv q live" by (simp add: pool_inv_acquire_None)
      moreover from Cons.prems(2) Acquire g None have "run_pool ops (q, live) = Some (p', live')" by simp
      ultimately show ?thesis by (rule Cons.IH)
    next
      case (Some i)
      with g Cons.prems(1) have "pool_inv q (i # live)" by (simp add: pool_inv_acquire)
      moreover from Cons.prems(2) Acquire g Some have "run_pool ops (q, i # live) = Some (p', live')" by simp
      ultimately show ?thesis by (rule Cons.IH)
    qed
  next
    case (Release h)
    with Cons.prems(2) have h: "h \<in> set live"
      and r: "run_pool ops (panda_usb_free_ctx p h, remove1 h live) = Some (p', live')"
      by (simp_all split: if_splits)
    from Cons.prems(1) h have "pool_inv (panda_usb_free_ctx p h) (remove1 h live)"
      by (rule pool_inv_release)
    then show ?thesis using r by (rule Cons.IH)
  qed
qed

lemma run_pool_append:
  "run_pool (xs @ ys) s = (case run_pool xs s of None \<Rightarrow> None | Some t \<Rightarrow> run_pool ys t)"
proof (induction xs s rule: run_pool.induct)
  case (1 s)
  then show ?case by simp
next
  case (2 cf ops p live)
  then show ?case by (simp split: prod.splits option.splits)
next
  case (3 h ops p live)
  then show ?case by simp
qed

lemma pool_inv_live_bound:
  assumes "pool_inv p live"
  shows "length live \<le> PANDA_MAX_TX_URBS"
proof -
  from assms have d: "distinct live" and sub: "set live \<subseteq> {0 ..< PANDA_MAX_TX_URBS}"
    by (auto simp: pool_inv_def)
  have "length live = card (set live)"
    using d by (rule distinct_card [symmetric])
  also have "\<dots> \<le> card {0 ..< PANDA_MAX_TX_URBS}"
    using sub by (intro card_mono) simp_all
  finally show ?thesis by simp
qed

lemma pool_inv_free_slots:
  assumes "pool_inv p live"
  shows "free_ctx_cnt p = int (free_slots p)"
proof -
  from assms have len: "length (tx_context p) = PANDA_MAX_TX_URBS"
    and d: "distinct live" and sub: "set live \<subseteq> {0 ..< PANDA_MAX_TX_URBS}"
    and nd: "\<And>i. i < PANDA_MAX_TX_URBS \<Longrightarrow>
           ndx (tx_context p ! i) = (if i \<in> set live then i else PANDA_CTX_FREE)"
    and cnt: "free_ctx_cnt p = int PANDA_MAX_TX_URBS - int (length live)"
    by (auto simp: pool_inv_def)
  have "{i. i < length (tx_context p) \<and> ndx (tx_context p ! i) = PANDA_CTX_FREE} =
        {0 ..< PANDA_MAX_TX_URBS} - set live"
    using len nd by (auto simp: PANDA_CTX_FREE_def)
  then have "free_slots p = card ({0 ..< PANDA_MAX_TX_URBS} - set live)"
    by (simp add: free_slots_def length_filter_conv_card)
  also have "\<dots> = PANDA_MAX_TX_URBS - card (set live)"
    using sub by (simp add: card_Diff_subset)
  also have "card (set live) = length live"
    using d by (simp add: distinct_card)
  finally show ?thesis
    using cnt pool_inv_live_bound [OF assms] by simp
qed

text \<open>
  Claim C2. Start from the state that \<open>panda_init_ctx\<close> establishes and run any
  sequence of acquire and release calls in which every release gives back a handle that
  is live. Then after every prefix of the sequence the free count lies between 0 and
  \<open>PANDA_MAX_TX_URBS\<close> and equals the number of slots marked free, the live handles are
  pairwise different, and every live handle points to a slot that carries its own index.
\<close>
theorem pool_invariant:
  assumes "length (tx_context p0) = PANDA_MAX_TX_URBS"
      and "run_pool ops (panda_init_ctx p0, []) = Some final"
      and "k \<le> length ops"
  shows "\<exists>p live. run_pool (take k ops) (panda_init_ctx p0, []) = Some (p, live) \<and>
           0 \<le> free_ctx_cnt p \<and> free_ctx_cnt p \<le> int PANDA_MAX_TX_URBS \<and>
           free_ctx_cnt p = int (free_slots p) \<and>
           distinct live \<and>
           (\<forall>h \<in> set live. h < PANDA_MAX_TX_URBS \<and> ndx (tx_context p ! h) = h)"
proof -
  have "run_pool (take k ops @ drop k ops) (panda_init_ctx p0, []) = Some final"
    using assms(2) by simp
  then obtain s where s: "run_pool (take k ops) (panda_init_ctx p0, []) = Some s"
    unfolding run_pool_append by (cases "run_pool (take k ops) (panda_init_ctx p0, [])") auto
  obtain p live where pl: "s = (p, live)" by (cases s)
  have inv: "pool_inv p live"
    using pool_inv_init [OF assms(1)] s unfolding pl by (rule pool_inv_run)
  have "0 \<le> free_ctx_cnt p \<and> free_ctx_cnt p \<le> int PANDA_MAX_TX_URBS"
    using inv pool_inv_live_bound [OF inv] by (simp add: pool_inv_def)
  moreover have "free_ctx_cnt p = int (free_slots p)"
    using inv by (rule pool_inv_free_slots)
  moreover have "distinct live \<and> (\<forall>h \<in> set live. h < PANDA_MAX_TX_URBS \<and> ndx (tx_context p ! h) = h)"
    using inv by (auto simp: pool_inv_def)
  ultimately show ?thesis using s pl by blast
qed

theorem pool_invariant_witness:
  "length (tx_context probe_priv) = PANDA_MAX_TX_URBS \<and>
   run_pool [Acquire frame_123, Acquire frame_123, Release 0] (panda_init_ctx probe_priv, []) \<noteq> None \<and>
   (\<exists>p live.
      run_pool (take 2 [Acquire frame_123, Acquire frame_123, Release 0])
        (panda_init_ctx probe_priv, []) = Some (p, live) \<and>
      0 \<le> free_ctx_cnt p \<and> free_ctx_cnt p \<le> int PANDA_MAX_TX_URBS \<and>
      free_ctx_cnt p = int (free_slots p) \<and>
      distinct live \<and>
      (\<forall>h \<in> set live. h < PANDA_MAX_TX_URBS \<and> ndx (tx_context p ! h) = h))"
proof -
  have l: "length (tx_context probe_priv) = PANDA_MAX_TX_URBS"
    by (simp add: probe_priv_def PANDA_MAX_TX_URBS_def)
  have r: "run_pool [Acquire frame_123, Acquire frame_123, Release 0]
             (panda_init_ctx probe_priv, []) \<noteq> None"
    by code_simp
  then obtain final where f:
    "run_pool [Acquire frame_123, Acquire frame_123, Release 0]
       (panda_init_ctx probe_priv, []) = Some final"
    by blast
  have k: "2 \<le> length [Acquire frame_123, Acquire frame_123, Release 0]"
    by simp
  from pool_invariant [OF l f k] l r show ?thesis
    by blast
qed

lemma check_last_zero:
  "free_ctx_cnt p = 0 \<Longrightarrow> queue_stopped (check_last p) \<and>
     trace (check_last p) = trace p @ [AtomicRead 0, Log Printk ''CTX num %d'' [0],
        AtomicRead 0, Log Printk ''SENDING TOO FAST'' [], NetifStopQueue]"
  by (simp add: check_last_def)

lemma get_free_ctx_SomeD:
  assumes "panda_usb_get_free_ctx p cf = (Some i, p')"
  shows "find_free_ctx 0 (tx_context p) = Some i \<and> p' = check_last (reserve_ctx p cf i)"
  using assms
  by (cases "find_free_ctx 0 (tx_context p)") (simp_all add: get_free_ctx_None get_free_ctx_Some)

text \<open>
  Claim C3. Whenever \<open>panda_usb_get_free_ctx\<close> hands out a slot and leaves the free
  count at zero, the count was one before the call, the queue is stopped when the call
  returns, and the effects of the call are, in this order: the slot is reserved, the
  counter is decremented, the counter is read (twice, for the message and for the zero
  test, both reads seeing the decremented value 0), and \<open>netif_stop_queue\<close> is called.
\<close>
theorem acquire_last_slot_pauses:
  assumes "panda_usb_get_free_ctx p cf = (Some i, p')" and "free_ctx_cnt p' = 0"
  shows "free_ctx_cnt p = 1 \<and> queue_stopped p' \<and>
     trace p' = trace p @ [CtxReserve i, AtomicDec, AtomicRead 0, Log Printk ''CTX num %d'' [0],
        AtomicRead 0, Log Printk ''SENDING TOO FAST'' [], NetifStopQueue]"
proof -
  from get_free_ctx_SomeD [OF assms(1)] have p': "p' = check_last (reserve_ctx p cf i)"
    by simp
  with assms(2) have z: "free_ctx_cnt (reserve_ctx p cf i) = 0"
    by simp
  then have "free_ctx_cnt p = 1" by simp
  moreover from check_last_zero [OF z] have "queue_stopped p'" and
    "trace p' = trace p @ [CtxReserve i, AtomicDec, AtomicRead 0, Log Printk ''CTX num %d'' [0],
        AtomicRead 0, Log Printk ''SENDING TOO FAST'' [], NetifStopQueue]"
    unfolding p' by simp_all
  ultimately show ?thesis by simp
qed

theorem acquire_last_slot_pauses_witness:
  "panda_usb_get_free_ctx last_slot_priv frame_123 =
     (Some 19, snd (panda_usb_get_free_ctx last_slot_priv frame_123)) \<and>
   free_ctx_cnt (snd (panda_usb_get_free_ctx last_slot_priv frame_123)) = 0 \<and>
   free_ctx_cnt last_slot_priv = 1 \<and>
   queue_stopped (snd (panda_usb_get_free_ctx last_slot_priv frame_123)) \<and>
   trace (snd (panda_usb_get_free_ctx last_slot_priv frame_123)) =
     trace last_slot_priv @ [CtxReserve 19, AtomicDec, AtomicRead 0, Log Printk ''CTX num %d'' [0],
        AtomicRead 0, Log Printk ''SENDING TOO FAST'' [], NetifStopQueue]"
proof -
  have "fst (panda_usb_get_free_ctx last_slot_priv frame_123) = Some 19"
    by code_simp
  then have a: "panda_usb_get_free_ctx last_slot_priv frame_123 =
     (Some 19, snd (panda_usb_get_free_ctx last_slot_priv frame_123))"
    by (simp add: prod_eq_iff)
  have b: "free_ctx_cnt (snd (panda_usb_get_free_ctx last_slot_priv frame_123)) = 0"
    by code_simp
  from acquire_last_slot_pauses [OF a b] a b show ?thesis
    by blast
qed

text \<open>
  Claim C4, as amended. \<open>panda_usb_free_ctx\<close> performs its effects in this order: it
  increments the free count, then marks the slot free, then calls \<open>netif_wake_queue\<close>,
  without any condition; so the resume signal comes strictly after the slot has been
  marked free. (The claim puts the marking before the increment; the counterexample
  shows the order of the code on a pool with one busy slot.)
\<close>
theorem release_order:
  "trace (panda_usb_free_ctx p ctx) = trace p @ [AtomicInc, CtxMarkFree ctx, NetifWakeQueue] \<and>
   free_ctx_cnt (panda_usb_free_ctx p ctx) = free_ctx_cnt p + 1 \<and>
   \<not> queue_stopped (panda_usb_free_ctx p ctx) \<and>
   (ctx < length (tx_context p) \<longrightarrow>
      ndx (tx_context (panda_usb_free_ctx p ctx) ! ctx) = PANDA_CTX_FREE)"
  by simp

theorem release_order_witness:
  "(0::nat) < length (tx_context one_busy_priv) \<and>
   trace (panda_usb_free_ctx one_busy_priv 0) =
     trace one_busy_priv @ [AtomicInc, CtxMarkFree 0, NetifWakeQueue] \<and>
   free_ctx_cnt (panda_usb_free_ctx one_busy_priv 0) = free_ctx_cnt one_busy_priv + 1 \<and>
   \<not> queue_stopped (panda_usb_free_ctx one_busy_priv 0) \<and>
   ndx (tx_context (panda_usb_free_ctx one_busy_priv 0) ! 0) = PANDA_CTX_FREE"
proof -
  have "(0::nat) < length (tx_context one_busy_priv)"
    by code_simp
  with release_order [of one_busy_priv 0] show ?thesis
    by blast
qed

theorem release_order_counterexample:
  "drop (length (trace one_busy_priv)) (trace (panda_usb_free_ctx one_busy_priv 0)) =
     [AtomicInc, CtxMarkFree 0, NetifWakeQueue] \<and>
   drop (length (trace one_busy_priv)) (trace (panda_usb_free_ctx one_busy_priv 0)) \<noteq>
     [CtxMarkFree 0, AtomicInc, NetifWakeQueue]"
  by simp

subsection \<open>Transmit completion\<close>

lemma emit_fields [simp]:
  "tx_context (emit e p) = tx_context p"
  "free_ctx_cnt (emit e p) = free_ctx_cnt p"
  "stats (emit e p) = stats p"
  "device_present (emit e p) = device_present p"
  "queue_stopped (emit e p) = queue_stopped p"
  "trace (emit e p) = trace p @ [e]"
  by (simp_all add: emit_def)

text \<open>
  Claim C5, as amended. An invocation of \<open>panda_usb_write_bulk_callback\<close> with a
  context always frees the transfer buffer first. When the network device is still
  present it then increments \<open>tx_packets\<close>, adds the recorded DLC of the slot to
  \<open>tx_bytes\<close>, finalizes the echoed frame of the slot, logs when the status is not
  zero, and last releases the slot (counter incremented, slot marked free, queue woken).
  When the device is no longer present it returns right after freeing the buffer:
  no counter changes, no echo is finalized and the slot is not released.
\<close>
theorem write_bulk_callback_effects:
  "(device_present p \<longrightarrow>
     (\<exists>p'. panda_usb_write_bulk_callback p urb_status (Some ctx) = Inr p' \<and>
        tx_packets (stats p') = tx_packets (stats p) + 1 \<and>
        tx_bytes (stats p') = tx_bytes (stats p) + ucast (dlc (tx_context p ! ctx)) \<and>
        trace p' = trace p @ [UsbFreeCoherent, CanGetEchoSkb (ndx (tx_context p ! ctx))] @
          (if urb_status \<noteq> 0 then [Log Info ''Tx URB aborted (%d)'' [urb_status]] else []) @
          [AtomicInc, CtxMarkFree ctx, NetifWakeQueue] \<and>
        free_ctx_cnt p' = free_ctx_cnt p + 1 \<and>
        (ctx < length (tx_context p) \<longrightarrow> ndx (tx_context p' ! ctx) = PANDA_CTX_FREE))) \<and>
   (\<not> device_present p \<longrightarrow>
      panda_usb_write_bulk_callback p urb_status (Some ctx) = Inr (emit UsbFreeCoherent p))"
  by (simp add: panda_usb_write_bulk_callback_def Let_def)

theorem write_bulk_callback_effects_witness:
  "device_present one_busy_priv \<and> (0::nat) < length (tx_context one_busy_priv) \<and>
   (\<exists>p'. panda_usb_write_bulk_callback one_busy_priv (-2) (Some 0) = Inr p' \<and>
        tx_packets (stats p') = tx_packets (stats one_busy_priv) + 1 \<and>
        tx_bytes (stats p') = tx_bytes (stats one_busy_priv) + ucast (dlc (tx_context one_busy_priv ! 0)) \<and>
        trace p' = trace one_busy_priv @ [UsbFreeCoherent, CanGetEchoSkb (ndx (tx_context one_busy_priv ! 0))] @
          [Log Info ''Tx URB aborted (%d)'' [-2]] @
          [AtomicInc, CtxMarkFree 0, NetifWakeQueue] \<and>
        free_ctx_cnt p' = free_ctx_cnt one_busy_priv + 1 \<and>
        ndx (tx_context p' ! 0) = PANDA_CTX_FREE) \<and>
   \<not> device_present gone_priv \<and>
   panda_usb_write_bulk_callback gone_priv 0 (Some 0) = Inr (emit UsbFreeCoherent gone_priv)"
proof -
  have a: "device_present one_busy_priv" by code_simp
  have b: "(0::nat) < length (tx_context one_busy_priv)" by code_simp
  have c: "\<not> device_present gone_priv" by (simp add: gone_priv_def)
  from write_bulk_callback_effects [of one_busy_priv "-2" 0] a b
  have 1: "\<exists>p'. panda_usb_write_bulk_callback one_busy_priv (-2) (Some 0) = Inr p' \<and>
        tx_packets (stats p') = tx_packets (stats one_busy_priv) + 1 \<and>
        tx_bytes (stats p') = tx_bytes (stats one_busy_priv) + ucast (dlc (tx_context one_busy_priv ! 0)) \<and>
        trace p' = trace one_busy_priv @ [UsbFreeCoherent, CanGetEchoSkb (ndx (tx_context one_busy_priv ! 0))] @
          [Log Info ''Tx URB aborted (%d)'' [-2]] @
          [AtomicInc, CtxMarkFree 0, NetifWakeQueue] \<and>
        free_ctx_cnt p' = free_ctx_cnt one_busy_priv + 1 \<and>
        ndx (tx_context p' ! 0) = PANDA_CTX_FREE"
    by simp
  from write_bulk_callback_effects [of gone_priv 0 0] c
  have 2: "panda_usb_write_bulk_callback gone_priv 0 (Some 0) = Inr (emit UsbFreeCoherent gone_priv)"
    by blast
  from a b c 1 2 show ?thesis by blast
qed

theorem write_bulk_callback_counterexample:
  "panda_usb_write_bulk_callback gone_priv 0 (Some 0) = Inr (emit UsbFreeCoherent gone_priv) \<and>
   tx_packets (stats (emit UsbFreeCoherent gone_priv)) = tx_packets (stats gone_priv) \<and>
   free_ctx_cnt (emit UsbFreeCoherent gone_priv) = free_ctx_cnt gone_priv \<and>
   ndx (tx_context (emit UsbFreeCoherent gone_priv) ! 0) = 0 \<and>
   ndx (tx_context (emit UsbFreeCoherent gone_priv) ! 0) \<noteq> PANDA_CTX_FREE \<and>
   trace (emit UsbFreeCoherent gone_priv) = trace gone_priv @ [UsbFreeCoherent]"
proof -
  have "panda_usb_write_bulk_callback gone_priv 0 (Some 0) = Inr (emit UsbFreeCoherent gone_priv)"
    by (simp add: panda_usb_write_bulk_callback_def gone_priv_def Let_def)
  moreover have "ndx (tx_context gone_priv ! 0) = 0" by code_simp
  ultimately show ?thesis by (simp add: PANDA_CTX_FREE_def PANDA_MAX_TX_URBS_def)
qed

subsection \<open>Wire codec\<close>

lemma get_can_dlc_le: "unat (get_can_dlc i) \<le> 8"
  by (simp add: get_can_dlc_def CAN_MAX_DLC_def min_def word_le_nat_alt)

lemma mask_nibble_lt: "unat (i AND PANDA_DLC_MASK) < 16"
proof -
  have "unat (i AND 15) \<le> unat (15 :: u32)"
    by (rule word_and_le1 [THEN word_le_nat_alt [THEN iffD1]])
  then show ?thesis by (simp add: PANDA_DLC_MASK_def)
qed

lemma unat_ucast_nibble: "unat (ucast (i AND PANDA_DLC_MASK) :: u8) = unat (i AND PANDA_DLC_MASK)"
  using mask_nibble_lt [of i] by (simp add: unsigned_ucast_eq take_bit_nat_eq_self)

lemma unat_get_can_dlc:
  "unat (get_can_dlc (i AND PANDA_DLC_MASK)) = min (unat (i AND PANDA_DLC_MASK)) 8"
proof -
  have "unat (min (ucast (i AND PANDA_DLC_MASK)) (8 :: u8)) =
        min (unat (ucast (i AND PANDA_DLC_MASK) :: u8)) (unat (8 :: u8))"
    by (simp add: min_def word_le_nat_alt)
  then show ?thesis
    by (simp add: get_can_dlc_def CAN_MAX_DLC_def unat_ucast_nibble)
qed

lemma get_can_dlc_clamp:
  assumes "8 < unat (i AND PANDA_DLC_MASK)"
  shows "get_can_dlc (i AND PANDA_DLC_MASK) = 8"
proof -
  have "unat (get_can_dlc (i AND PANDA_DLC_MASK)) = unat (8 :: u8)"
    using assms by (simp add: unat_get_can_dlc)
  then show ?thesis by (rule unsigned_word_eqI)
qed



lemma mask29: "(0x1FFFFFFF :: u32) = mask 29"
  by (simp add: mask_eq_exp_minus_1)

lemma mask11: "(0x7FF :: u32) = mask 11"
  by (simp add: mask_eq_exp_minus_1)

lemma bit_int_4: "bit (4 :: int) n \<longleftrightarrow> n = 2"
  using bit_exp_iff [where ?'a = int, of 2 n] by auto

lemma bit_int_eff: "bit (0x80000000 :: int) n \<longleftrightarrow> n = 31"
  using bit_exp_iff [where ?'a = int, of 31 n] by auto

lemma bit_int_rtr: "bit (0x40000000 :: int) n \<longleftrightarrow> n = 30"
  using bit_exp_iff [where ?'a = int, of 30 n] by auto

lemma bit_int_err: "bit (0x20000000 :: int) n \<longleftrightarrow> n = 29"
  using bit_exp_iff [where ?'a = int, of 29 n] by auto

lemma bit_int_rtr_err: "bit (0x60000000 :: int) n \<longleftrightarrow> n = 29 \<or> n = 30"
proof -
  have "(0x60000000 :: int) = 0x20000000 OR 0x40000000"
    by simp
  then have "bit (0x60000000 :: int) n \<longleftrightarrow> bit (0x20000000 :: int) n \<or> bit (0x40000000 :: int) n"
    by (simp only: bit_or_iff)
  then show ?thesis
    by (simp only: bit_int_rtr bit_int_err)
qed

lemmas bit_u32_consts = bit_int_4 bit_int_eff bit_int_rtr bit_int_err bit_int_rtr_err

lemma ext_flag_set: "(push_bit 3 (x AND 0x1FFFFFFF) OR 1 OR 4 :: u32) AND 4 \<noteq> 0"
proof
  assume "(push_bit 3 (x AND 0x1FFFFFFF) OR 1 OR 4 :: u32) AND 4 = 0"
  then have "bit ((push_bit 3 (x AND 0x1FFFFFFF) OR 1 OR 4 :: u32) AND 4) 2 = bit (0::u32) 2"
    by simp
  then show False
    by (simp add: bit_simps bit_u32_consts)
qed

lemma ext_id_back:
  "drop_bit 3 (push_bit 3 (x AND 0x1FFFFFFF) OR 1 OR 4 :: u32) = x AND 0x1FFFFFFF"
  unfolding mask29
  by (rule bit_eqI) (auto simp: bit_simps bit_u32_consts)

lemma ext_id_flag:
  assumes "x AND 0x80000000 \<noteq> 0" and "x AND 0x60000000 = 0"
  shows "(x AND 0x1FFFFFFF) OR 0x80000000 = (x :: u32)"
proof (rule bit_eqI)
  fix n
  assume pb: "possible_bit TYPE(u32) n"
  have "x AND 0x80000000 = 0" if "\<not> bit x 31"
    by (rule bit_eqI) (use that in \<open>auto simp: bit_simps bit_u32_consts\<close>)
  with assms(1) have b31: "bit x 31"
    by blast
  have b: "\<not> (bit x k \<and> (k = 30 \<or> k = 29))" for k
  proof -
    from assms(2) have "bit (x AND 0x60000000) k = bit (0::u32) k"
      by simp
    then show ?thesis
      by (auto simp: bit_simps bit_u32_consts)
  qed
  have "n < 32" using pb by simp
  then have "n < 29 \<or> n = 29 \<or> n = 30 \<or> n = 31" by arith
  then show "bit (x AND 0x1FFFFFFF OR 0x80000000) n = bit x n"
    unfolding mask29 using b31 b [of n]
    by (auto simp: bit_simps bit_u32_consts)
qed

lemma std_flag_clear: "(push_bit 21 (x AND 0x7FF) OR 1 :: u32) AND 4 = 0"
  unfolding mask11
  by (rule bit_eqI) (auto simp: bit_simps bit_u32_consts)

lemma std_id_back: "drop_bit 21 (push_bit 21 (x AND 0x7FF) OR 1 :: u32) = x AND 0x7FF"
  unfolding mask11
  by (rule bit_eqI) (auto simp: bit_simps bit_u32_consts)

lemma std_id_small:
  assumes "x \<le> 0x7FF"
  shows "x AND 0x7FF = (x :: u32)"
proof -
  from assms have "x < 2 ^ 11"
    by (simp add: word_less_nat_alt word_le_nat_alt)
  then show ?thesis
    unfolding mask11 by (rule less_mask_eq)
qed


lemma unat_ucast_u8_u32: "unat (ucast (d :: u8) :: u32) = unat d"
proof -
  have "unat d < 2 ^ 8"
    using unsigned_less [of d] by simp
  then have "unat d < 2 ^ 32"
    by simp
  then show ?thesis
    by (simp add: unsigned_ucast_eq take_bit_nat_eq_self)
qed

lemma dlc_field_small:
  assumes "unat (d :: u8) \<le> 8"
  shows "(ucast d AND 0x0F :: u32) = ucast d"
proof -
  have "(0x0F :: u32) = mask 4"
    by (simp add: mask_eq_exp_minus_1)
  moreover from assms have "(ucast d :: u32) < 2 ^ 4"
    by (simp add: word_less_nat_alt unat_ucast_u8_u32)
  ultimately show ?thesis
    by (simp only: less_mask_eq)
qed

lemma dlc_round_trip:
  assumes "unat (d :: u8) \<le> 8"
  shows "get_can_dlc (xmit_bus_dat_len d AND PANDA_DLC_MASK) = d"
proof -
  have f: "xmit_bus_dat_len d AND PANDA_DLC_MASK = ucast d AND PANDA_DLC_MASK"
    by (simp add: xmit_bus_dat_len_def cpu_to_le32_def PANDA_DLC_MASK_def and.assoc)
  have "unat (ucast d AND PANDA_DLC_MASK :: u32) = unat d"
    using dlc_field_small [OF assms] by (simp add: PANDA_DLC_MASK_def unat_ucast_u8_u32)
  then have "unat (get_can_dlc (ucast d AND PANDA_DLC_MASK)) = unat d"
    using assms by (simp add: unat_get_can_dlc)
  then show ?thesis
    unfolding f by (rule unsigned_word_eqI)
qed

lemma id_round_trip:
  assumes "cid AND (CAN_RTR_FLAG OR CAN_ERR_FLAG) = 0"
      and "cid AND CAN_EFF_FLAG = 0 \<longrightarrow> cid \<le> 0x7FF"
  shows "rx_can_id (xmit_rir cid) = cid"
proof (cases "cid AND CAN_EFF_FLAG \<noteq> 0")
  case True
  then have e: "cid AND 0x80000000 \<noteq> 0"
    by (simp add: CAN_EFF_FLAG_def)
  from assms(1) have r: "cid AND 0x60000000 = 0"
    by (simp add: CAN_RTR_FLAG_def CAN_ERR_FLAG_def)
  from True have x: "xmit_rir cid = push_bit 3 (cid AND 0x1FFFFFFF) OR 1 OR 4"
    by (simp add: xmit_rir_def cpu_to_le32_def PANDA_CAN_TRANSMIT_def PANDA_CAN_EXTENDED_def)
  show ?thesis
    unfolding x rx_can_id_def PANDA_CAN_EXTENDED_def CAN_EFF_FLAG_def
    by (simp only: ext_flag_set ext_id_back ext_id_flag [OF e r] not_False_eq_True if_True)
next
  case False
  with assms(2) have "cid \<le> 0x7FF"
    by simp
  then have s: "cid AND 0x7FF = cid"
    by (rule std_id_small)
  from False have x: "xmit_rir cid = push_bit 21 (cid AND 0x7FF) OR 1"
    by (simp add: xmit_rir_def cpu_to_le32_def PANDA_CAN_TRANSMIT_def)
  have "rx_can_id (xmit_rir cid) = cid AND 0x7FF"
    unfolding x rx_can_id_def PANDA_CAN_EXTENDED_def
    by (simp only: std_flag_clear std_id_back not_not refl if_False simp_thms)
  with s show ?thesis
    by simp
qed

lemma memcpy_Inr:
  "n \<le> length src \<Longrightarrow> n \<le> length dst \<Longrightarrow> memcpy dst src n = Inr (take n src @ drop n dst)"
  by (simp add: memcpy_def)

lemma decode_msg_Inr:
  assumes "length (data msg) = 8"
  shows "decode_msg msg =
     Inr \<lparr>can_id = rx_can_id (rir msg),
          can_dlc = get_can_dlc (bus_dat_len msg AND PANDA_DLC_MASK),
          can_data = take (unat (get_can_dlc (bus_dat_len msg AND PANDA_DLC_MASK))) (data msg) @
                     replicate (8 - unat (get_can_dlc (bus_dat_len msg AND PANDA_DLC_MASK))) 0\<rparr>"
  using assms get_can_dlc_le [of "bus_dat_len msg AND PANDA_DLC_MASK"]
  by (simp add: decode_msg_def Let_def memcpy_Inr)

lemma encode_frame_Inr:
  assumes "length (can_data cf) = 8" and "unat (can_dlc cf) \<le> 8"
  shows "encode_frame cf =
     Inr \<lparr>rir = xmit_rir (can_id cf), bus_dat_len = xmit_bus_dat_len (can_dlc cf),
          data = take (unat (can_dlc cf)) (can_data cf) @ replicate (8 - unat (can_dlc cf)) 0\<rparr>"
  using assms by (simp add: encode_frame_def Let_def memcpy_Inr)

text \<open>
  Claim C1. Take a frame whose \<open>can_id\<close> has neither the remote nor the error flag,
  whose identifier fits in 11 bits when the extended flag is clear (with the flag set
  the identifier is the low 29 bits of \<open>can_id\<close>), whose DLC is at most 8 and whose
  data array has its eight bytes. Then the packing of \<open>panda_usb_start_xmit\<close> yields a
  wire message, the unpacking of \<open>panda_usb_process_can_rx\<close> yields a frame from it,
  and that frame has the same \<open>can_id\<close> (identifier and extended flag), the same DLC
  and the same first DLC data bytes.
\<close>
theorem codec_round_trip:
  assumes "length (can_data cf) = 8" and "unat (can_dlc cf) \<le> 8"
      and "can_id cf AND (CAN_RTR_FLAG OR CAN_ERR_FLAG) = 0"
      and "can_id cf AND CAN_EFF_FLAG = 0 \<longrightarrow> can_id cf \<le> 0x7FF"
  shows "\<exists>msg cf'. encode_frame cf = Inr msg \<and> decode_msg msg = Inr cf' \<and>
           can_id cf' = can_id cf \<and> can_dlc cf' = can_dlc cf \<and>
           take (unat (can_dlc cf)) (can_data cf') = take (unat (can_dlc cf)) (can_data cf)"
proof -
  let ?msg = "\<lparr>rir = xmit_rir (can_id cf), bus_dat_len = xmit_bus_dat_len (can_dlc cf),
          data = take (unat (can_dlc cf)) (can_data cf) @ replicate (8 - unat (can_dlc cf)) 0\<rparr>"
  have e: "encode_frame cf = Inr ?msg"
    using assms(1,2) by (rule encode_frame_Inr)
  have l: "length (data ?msg) = 8"
    using assms(1,2) by simp
  have d: "get_can_dlc (bus_dat_len ?msg AND PANDA_DLC_MASK) = can_dlc cf"
    using dlc_round_trip [OF assms(2)] by simp
  have i: "rx_can_id (rir ?msg) = can_id cf"
    using id_round_trip [OF assms(3,4)] by simp
  let ?cf' = "\<lparr>can_id = can_id cf, can_dlc = can_dlc cf,
          can_data = take (unat (can_dlc cf)) (data ?msg) @ replicate (8 - unat (can_dlc cf)) 0\<rparr>"
  have dm: "decode_msg ?msg = Inr ?cf'"
    using decode_msg_Inr [OF l] by (simp only: d i)
  have "take (unat (can_dlc cf)) (can_data ?cf') = take (unat (can_dlc cf)) (can_data cf)"
    using assms(1,2) by simp
  with e dm show ?thesis
    by (intro exI [of _ ?msg] exI [of _ ?cf']) simp
qed


theorem codec_round_trip_witness:
  "length (can_data frame_123) = 8 \<and> unat (can_dlc frame_123) \<le> 8 \<and>
   can_id frame_123 AND (CAN_RTR_FLAG OR CAN_ERR_FLAG) = 0 \<and>
   can_id frame_123 AND CAN_EFF_FLAG = 0 \<and> can_id frame_123 \<le> 0x7FF \<and>
   (\<exists>msg cf'. encode_frame frame_123 = Inr msg \<and> decode_msg msg = Inr cf' \<and>
           can_id cf' = can_id frame_123 \<and> can_dlc cf' = can_dlc frame_123 \<and>
           take (unat (can_dlc frame_123)) (can_data cf') =
           take (unat (can_dlc frame_123)) (can_data frame_123)) \<and>
   length (can_data frame_ext) = 8 \<and> unat (can_dlc frame_ext) \<le> 8 \<and>
   can_id frame_ext AND (CAN_RTR_FLAG OR CAN_ERR_FLAG) = 0 \<and>
   can_id frame_ext AND CAN_EFF_FLAG \<noteq> 0 \<and>
   (\<exists>msg cf'. encode_frame frame_ext = Inr msg \<and> decode_msg msg = Inr cf' \<and>
           can_id cf' = can_id frame_ext \<and> can_dlc cf' = can_dlc frame_ext \<and>
           take (unat (can_dlc frame_ext)) (can_data cf') =
           take (unat (can_dlc frame_ext)) (can_data frame_ext))"
proof -
  have a: "length (can_data frame_123) = 8" "unat (can_dlc frame_123) \<le> 8"
    "can_id frame_123 AND (CAN_RTR_FLAG OR CAN_ERR_FLAG) = 0"
    "can_id frame_123 AND CAN_EFF_FLAG = 0" "can_id frame_123 \<le> 0x7FF"
    by (simp_all add: frame_123_def CAN_RTR_FLAG_def CAN_ERR_FLAG_def CAN_EFF_FLAG_def)
  have b: "length (can_data frame_ext) = 8" "unat (can_dlc frame_ext) \<le> 8"
    "can_id frame_ext AND (CAN_RTR_FLAG OR CAN_ERR_FLAG) = 0"
    "can_id frame_ext AND CAN_EFF_FLAG \<noteq> 0"
    by (simp_all add: frame_ext_def CAN_RTR_FLAG_def CAN_ERR_FLAG_def CAN_EFF_FLAG_def)
  from a have 1: "\<exists>msg cf'. encode_frame frame_123 = Inr msg \<and> decode_msg msg = Inr cf' \<and>
           can_id cf' = can_id frame_123 \<and> can_dlc cf' = can_dlc frame_123 \<and>
           take (unat (can_dlc frame_123)) (can_data cf') =
           take (unat (can_dlc frame_123)) (can_data frame_123)"
    by (intro codec_round_trip) simp_all
  from b have 2: "\<exists>msg cf'. encode_frame frame_ext = Inr msg \<and> decode_msg msg = Inr cf' \<and>
           can_id cf' = can_id frame_ext \<and> can_dlc cf' = can_dlc frame_ext \<and>
           take (unat (can_dlc frame_ext)) (can_data cf') =
           take (unat (can_dlc frame_ext)) (can_data frame_ext)"
    by (intro codec_round_trip) simp_all
  from a b 1 2 show ?thesis
    by blast
qed

text \<open>
  Claim C7. For every wire message whose length field (the low four bits of
  \<open>bus_dat_len\<close>) is above 8, the unpacking yields a frame and no fault: the copy stays
  inside the eight-byte data field of the message. The frame has DLC 8 and its data are
  the first eight bytes of the message.
\<close>
theorem decode_clamps_dlc:
  assumes "length (data msg) = 8" and "8 < unat (bus_dat_len msg AND PANDA_DLC_MASK)"
  shows "\<exists>cf. decode_msg msg = Inr cf \<and> can_dlc cf = 8 \<and>
           length (can_data cf) = 8 \<and> can_data cf = take 8 (data msg)"
  using assms(1) get_can_dlc_clamp [OF assms(2)]
  by (simp add: decode_msg_Inr)

theorem decode_clamps_dlc_witness:
  "length (data msg_dlc15) = 8 \<and> bus_dat_len msg_dlc15 AND PANDA_DLC_MASK = 15 \<and>
   8 < unat (bus_dat_len msg_dlc15 AND PANDA_DLC_MASK) \<and>
   (\<exists>cf. decode_msg msg_dlc15 = Inr cf \<and> can_dlc cf = 8 \<and>
           length (can_data cf) = 8 \<and> can_data cf = take 8 (data msg_dlc15))"
proof -
  have a: "length (data msg_dlc15) = 8"
    by (simp add: msg_dlc15_def)
  have b: "bus_dat_len msg_dlc15 AND PANDA_DLC_MASK = 15"
    by (simp add: msg_dlc15_def PANDA_DLC_MASK_def)
  then have c: "8 < unat (bus_dat_len msg_dlc15 AND PANDA_DLC_MASK)"
    by simp
  from decode_clamps_dlc [OF a c] a b c show ?thesis
    by blast
qed

subsection \<open>Transmit submission\<close>

lemma can_dropped_invalid_skb_ok:
  "unat (can_dlc cf) \<le> 8 \<Longrightarrow> can_dropped_invalid_skb p cf = (False, p)"
  by (simp add: can_dropped_invalid_skb_def)

lemma netif_device_detach_fields [simp]:
  "tx_context (netif_device_detach p) = tx_context p"
  "free_ctx_cnt (netif_device_detach p) = free_ctx_cnt p"
  "stats (netif_device_detach p) = stats p"
  "trace (netif_device_detach p) = trace p @ [NetifDeviceDetach]"
  by (simp_all add: netif_device_detach_def)

lemma xmit_fields [simp]:
  "tx_context (snd (panda_usb_xmit env p usb_msg ctx)) = tx_context p"
  "free_ctx_cnt (snd (panda_usb_xmit env p usb_msg ctx)) = free_ctx_cnt p"
  "stats (snd (panda_usb_xmit env p usb_msg ctx)) = stats p"
  by (simp_all add: panda_usb_xmit_def Let_def)

lemma xmit_err: "fst (panda_usb_xmit env p usb_msg ctx) \<noteq> 0 \<longleftrightarrow> xmit_fails env"
  by (simp add: panda_usb_xmit_def Let_def xmit_fails_def ENOMEM_def)

lemma xmit_trace: "\<exists>es. trace (snd (panda_usb_xmit env p usb_msg ctx)) = trace p @ es"
  by (simp add: panda_usb_xmit_def Let_def)

lemma start_xmit_acquired:
  assumes "length (can_data cf) = 8" and "unat (can_dlc cf) \<le> 8"
      and "panda_usb_get_free_ctx p cf = (Some ctx, p1)"
  shows "panda_usb_start_xmit env p cf =
     (let p2 = emit (CanPutEchoSkb (ndx (tx_context p1 ! ctx))) p1;
          usb_msg = \<lparr>rir = xmit_rir (can_id cf), bus_dat_len = xmit_bus_dat_len (can_dlc cf),
             data = take (unat (can_dlc cf)) (can_data cf) @ replicate (8 - unat (can_dlc cf)) 0\<rparr>;
          p3 = emit (Log Err ''Received data from socket. canid: %x; len: %d''
                                         [uint (can_id cf), uint (can_dlc cf)]) p2;
          r = panda_usb_xmit env p3 usb_msg ctx
      in if fst r \<noteq> 0
         then Inr (NETDEV_TX_OK,
                (emit KfreeSkb (panda_usb_free_ctx (emit (CanFreeEchoSkb (ndx (tx_context (snd r) ! ctx))) (snd r)) ctx))
                 \<lparr>stats := (stats (snd r))\<lparr>tx_dropped := tx_dropped (stats (snd r)) + 1\<rparr>\<rparr>)
         else Inr (NETDEV_TX_OK, snd r))"
  using assms(3)
  by (simp add: panda_usb_start_xmit_def can_dropped_invalid_skb_ok [OF assms(2)]
      encode_frame_Inr [OF assms(1,2)] Let_def case_prod_beta)

lemma start_xmit_no_ctx:
  assumes "unat (can_dlc cf) \<le> 8"
      and "panda_usb_get_free_ctx p cf = (None, p1)"
  shows "panda_usb_start_xmit env p cf = Inl NullDeref"
  using assms(2)
  by (simp add: panda_usb_start_xmit_def can_dropped_invalid_skb_ok [OF assms(1)])


lemma check_last_trace: "\<exists>es. trace (check_last p) = trace p @ es"
  by (simp add: check_last_def)

lemma get_free_ctx_fst:
  "fst (panda_usb_get_free_ctx p cf) = find_free_ctx 0 (tx_context p)"
  by (cases "find_free_ctx 0 (tx_context p)") (simp_all add: get_free_ctx_None get_free_ctx_Some)

text \<open>
  Claim C8. Let \<open>panda_usb_start_xmit\<close> be called with a frame that passes the
  validity check, on a pool from which \<open>panda_usb_get_free_ctx\<close> hands out the slot
  \<open>ctx\<close>, and let \<open>panda_usb_xmit\<close> fail (no URB, no buffer, or a submit error). Then
  the call returns \<open>NETDEV_TX_OK\<close>; its last effects are: the echoed frame of the slot
  is freed, the slot is released (\<open>panda_usb_free_ctx\<close>), the frame is freed; and
  \<open>tx_dropped\<close> is one more than before. The slot is marked free again: the marks of
  all slots and the free count are what they were before the call.
\<close>
theorem xmit_failure_releases:
  assumes "length (tx_context p) = PANDA_MAX_TX_URBS"
      and "length (can_data cf) = 8" and "unat (can_dlc cf) \<le> 8"
      and "fst (panda_usb_get_free_ctx p cf) = Some ctx"
      and "xmit_fails env"
  shows "\<exists>p' es. panda_usb_start_xmit env p cf = Inr (NETDEV_TX_OK, p') \<and>
           map ndx (tx_context p') = map ndx (tx_context p) \<and>
           ndx (tx_context p' ! ctx) = PANDA_CTX_FREE \<and>
           free_ctx_cnt p' = free_ctx_cnt p \<and>
           tx_dropped (stats p') = tx_dropped (stats p) + 1 \<and>
           trace p' = trace p @ es @
             [CanFreeEchoSkb ctx, AtomicInc, CtxMarkFree ctx, NetifWakeQueue, KfreeSkb]"
proof -
  from assms(4) have f: "find_free_ctx 0 (tx_context p) = Some ctx"
    by (simp add: get_free_ctx_fst)
  then have g: "panda_usb_get_free_ctx p cf = (Some ctx, check_last (reserve_ctx p cf ctx))"
    by (rule get_free_ctx_Some)
  from find_free_ctx_Some [OF f] have c: "ctx < PANDA_MAX_TX_URBS"
    and fr: "ndx (tx_context p ! ctx) = PANDA_CTX_FREE"
    by simp_all
  let ?p1 = "check_last (reserve_ctx p cf ctx)"
  let ?p3 = "emit (Log Err ''Received data from socket. canid: %x; len: %d''
                [uint (can_id cf), uint (can_dlc cf)])
              (emit (CanPutEchoSkb (ndx (tx_context ?p1 ! ctx))) ?p1)"
  let ?msg = "\<lparr>rir = xmit_rir (can_id cf), bus_dat_len = xmit_bus_dat_len (can_dlc cf),
             data = take (unat (can_dlc cf)) (can_data cf) @ replicate (8 - unat (can_dlc cf)) 0\<rparr>"
  let ?r = "panda_usb_xmit env ?p3 ?msg ctx"
  let ?p' = "(emit KfreeSkb (panda_usb_free_ctx (emit (CanFreeEchoSkb (ndx (tx_context (snd ?r) ! ctx))) (snd ?r)) ctx))
                 \<lparr>stats := (stats (snd ?r))\<lparr>tx_dropped := tx_dropped (stats (snd ?r)) + 1\<rparr>\<rparr>"
  have e: "fst ?r \<noteq> 0"
    using assms(5) by (simp only: xmit_err)
  have s: "panda_usb_start_xmit env p cf = Inr (NETDEV_TX_OK, ?p')"
    using e by (simp add: start_xmit_acquired [OF assms(2,3) g] Let_def)
  have t: "tx_context ?p' = (tx_context p)[ctx := \<lparr>ndx = PANDA_CTX_FREE, dlc = can_dlc cf\<rparr>]"
    using c assms(1) by simp
  have 1: "map ndx (tx_context ?p') = map ndx (tx_context p)"
    unfolding t using fr c assms(1)
    by (simp add: list_eq_iff_nth_eq nth_list_update)
  have 2: "ndx (tx_context ?p' ! ctx) = PANDA_CTX_FREE"
    unfolding t using c assms(1) by simp
  have 3: "free_ctx_cnt ?p' = free_ctx_cnt p"
    by simp
  have 4: "tx_dropped (stats ?p') = tx_dropped (stats p) + 1"
    by simp
  obtain es0 where x: "trace (snd ?r) = trace ?p3 @ es0"
    using xmit_trace by blast
  obtain es2 where z: "trace ?p1 = trace (reserve_ctx p cf ctx) @ es2"
    using check_last_trace by blast
  obtain es1 where y: "trace ?p3 = trace p @ es1"
    by (simp add: z)
  have w: "trace ?p' = trace (snd ?r) @
             [CanFreeEchoSkb ctx, AtomicInc, CtxMarkFree ctx, NetifWakeQueue, KfreeSkb]"
    using c assms(1) by simp
  have 5: "trace ?p' = trace p @ (es1 @ es0) @
             [CanFreeEchoSkb ctx, AtomicInc, CtxMarkFree ctx, NetifWakeQueue, KfreeSkb]"
    by (simp only: w x y append_assoc)
  from s 1 2 3 4 5 show ?thesis
    by blast
qed


theorem xmit_failure_releases_witness:
  "length (tx_context (panda_init_ctx probe_priv)) = PANDA_MAX_TX_URBS \<and>
   length (can_data frame_123) = 8 \<and> unat (can_dlc frame_123) \<le> 8 \<and>
   fst (panda_usb_get_free_ctx (panda_init_ctx probe_priv) frame_123) = Some 0 \<and>
   xmit_fails enomem_env \<and>
   (\<exists>p' es. panda_usb_start_xmit enomem_env (panda_init_ctx probe_priv) frame_123 =
               Inr (NETDEV_TX_OK, p') \<and>
           map ndx (tx_context p') = map ndx (tx_context (panda_init_ctx probe_priv)) \<and>
           ndx (tx_context p' ! 0) = PANDA_CTX_FREE \<and>
           free_ctx_cnt p' = free_ctx_cnt (panda_init_ctx probe_priv) \<and>
           tx_dropped (stats p') = tx_dropped (stats (panda_init_ctx probe_priv)) + 1 \<and>
           trace p' = trace (panda_init_ctx probe_priv) @ es @
             [CanFreeEchoSkb 0, AtomicInc, CtxMarkFree 0, NetifWakeQueue, KfreeSkb])"
proof -
  have a: "length (tx_context (panda_init_ctx probe_priv)) = PANDA_MAX_TX_URBS"
    by (simp add: panda_init_ctx_def probe_priv_def PANDA_MAX_TX_URBS_def)
  have b: "length (can_data frame_123) = 8" and c: "unat (can_dlc frame_123) \<le> 8"
    by (simp_all add: frame_123_def)
  have d: "fst (panda_usb_get_free_ctx (panda_init_ctx probe_priv) frame_123) = Some 0"
    by code_simp
  have e: "xmit_fails enomem_env"
    by (simp add: xmit_fails_def enomem_env_def)
  from xmit_failure_releases [OF a b c d e] a b c d e show ?thesis
    by blast
qed

lemma find_free_ctx_None_iff:
  assumes "length (tx_context p) = PANDA_MAX_TX_URBS"
  shows "find_free_ctx 0 (tx_context p) = None \<longleftrightarrow> free_slots p = 0"
proof
  assume "find_free_ctx 0 (tx_context p) = None"
  then have "\<And>k. k < PANDA_MAX_TX_URBS \<Longrightarrow> ndx (tx_context p ! k) \<noteq> PANDA_CTX_FREE"
    using find_free_ctx_None [of 0 "tx_context p"] by simp
  then have "\<forall>c \<in> set (tx_context p). ndx c \<noteq> PANDA_CTX_FREE"
    using assms by (auto simp: in_set_conv_nth)
  then show "free_slots p = 0"
    by (simp add: free_slots_def filter_empty_conv)
next
  assume z: "free_slots p = 0"
  show "find_free_ctx 0 (tx_context p) = None"
  proof (cases "find_free_ctx 0 (tx_context p)")
    case None
    then show ?thesis .
  next
    case (Some i)
    from find_free_ctx_Some [OF Some] have "i < length (tx_context p)"
      and "ndx (tx_context p ! i) = PANDA_CTX_FREE"
      using assms by simp_all
    then have "\<exists>c \<in> set (tx_context p). ndx c = PANDA_CTX_FREE"
      using nth_mem by blast
    with z show ?thesis
      by (simp add: free_slots_def filter_empty_conv)
  qed
qed

text \<open>
  Claim C10. On a pool that satisfies its invariant, and for a frame that passes the
  validity check (so that the transmit path reaches the acquire), \<open>panda_usb_get_free_ctx\<close>
  returns the null handle exactly when the free count is zero, \<open>panda_usb_start_xmit\<close>
  then dereferences that null handle, and \<open>panda_usb_start_xmit\<close> returns a result
  exactly when the free count is positive.
\<close>
theorem start_xmit_null_deref:
  assumes "pool_inv p live" and "length (can_data cf) = 8" and "unat (can_dlc cf) \<le> 8"
  shows "(fst (panda_usb_get_free_ctx p cf) = None \<longleftrightarrow> free_ctx_cnt p = 0) \<and>
         (panda_usb_start_xmit env p cf = Inl NullDeref \<longleftrightarrow> free_ctx_cnt p = 0) \<and>
         ((\<exists>r. panda_usb_start_xmit env p cf = Inr r) \<longleftrightarrow> 0 < free_ctx_cnt p)"
proof -
  from assms(1) have len: "length (tx_context p) = PANDA_MAX_TX_URBS"
    by (simp add: pool_inv_def)
  have cnt: "free_ctx_cnt p = int (free_slots p)"
    using assms(1) by (rule pool_inv_free_slots)
  have n: "find_free_ctx 0 (tx_context p) = None \<longleftrightarrow> free_ctx_cnt p = 0"
    using find_free_ctx_None_iff [OF len] cnt by simp
  show ?thesis
  proof (cases "find_free_ctx 0 (tx_context p)")
    case None
    then have "panda_usb_start_xmit env p cf = Inl NullDeref"
      using start_xmit_no_ctx [OF assms(3) get_free_ctx_None [OF None]] by simp
    with None n show ?thesis
      by (simp add: get_free_ctx_fst)
  next
    case (Some i)
    have "\<exists>r. panda_usb_start_xmit env p cf = Inr r"
      by (simp add: start_xmit_acquired [OF assms(2,3) get_free_ctx_Some [OF Some]] Let_def)
    moreover from Some n cnt have "0 < free_ctx_cnt p"
      by simp
    ultimately show ?thesis
      using Some by (auto simp: get_free_ctx_fst)
  qed
qed

lemma full_pool_run:
  "run_pool (replicate 20 (Acquire frame_123)) (panda_init_ctx probe_priv, []) = Some (full_priv, full_live)"
proof -
  have "run_pool (replicate 20 (Acquire frame_123)) (panda_init_ctx probe_priv, []) \<noteq> None"
    by code_simp
  then show ?thesis
    by (auto simp: full_priv_def full_live_def)
qed

theorem start_xmit_null_deref_witness:
  "pool_inv full_priv full_live \<and> length (can_data frame_123) = 8 \<and> unat (can_dlc frame_123) \<le> 8 \<and>
   free_ctx_cnt full_priv = 0 \<and>
   fst (panda_usb_get_free_ctx full_priv frame_123) = None \<and>
   panda_usb_start_xmit enomem_env full_priv frame_123 = Inl NullDeref \<and>
   pool_inv (panda_init_ctx probe_priv) [] \<and>
   0 < free_ctx_cnt (panda_init_ctx probe_priv) \<and>
   fst (panda_usb_get_free_ctx (panda_init_ctx probe_priv) frame_123) \<noteq> None \<and>
   (\<exists>r. panda_usb_start_xmit enomem_env (panda_init_ctx probe_priv) frame_123 = Inr r)"
proof -
  have l: "length (tx_context probe_priv) = PANDA_MAX_TX_URBS"
    by (simp add: probe_priv_def PANDA_MAX_TX_URBS_def)
  have i: "pool_inv (panda_init_ctx probe_priv) []"
    using l by (rule pool_inv_init)
  have f: "pool_inv full_priv full_live"
    using i full_pool_run by (rule pool_inv_run)
  have b: "length (can_data frame_123) = 8" and c: "unat (can_dlc frame_123) \<le> 8"
    by (simp_all add: frame_123_def)
  have z: "free_ctx_cnt full_priv = 0"
    by code_simp
  have p: "0 < free_ctx_cnt (panda_init_ctx probe_priv)"
    by (simp add: panda_init_ctx_def PANDA_MAX_TX_URBS_def)
  from start_xmit_null_deref [OF f b c, of enomem_env] start_xmit_null_deref [OF i b c, of enomem_env]
    i f b c z p
  show ?thesis
    by simp
qed

subsection \<open>Receive completion\<close>

lemma delivered_append: "delivered (xs @ ys) = delivered xs @ delivered ys"
proof (induction xs)
  case Nil
  then show ?case by simp
next
  case (Cons e xs)
  then show ?case by (cases e) simp_all
qed

lemma process_can_rx_no_skb: "panda_usb_process_can_rx p False msg = Inr p"
  by (simp add: panda_usb_process_can_rx_def)

lemma process_can_rx_skb:
  assumes "decode_msg msg = Inr cf"
  shows "panda_usb_process_can_rx p True msg =
     Inr (emit (NetifRx cf)
            (p\<lparr>stats := (stats p)\<lparr>rx_packets := rx_packets (stats p) + 1,
                                      rx_bytes := rx_bytes (stats p) + ucast (can_dlc cf)\<rparr>\<rparr>))"
  using assms by (simp add: panda_usb_process_can_rx_def Let_def)

lemma process_can_rx_Inr:
  assumes "length (data msg) = 8"
  shows "\<exists>p'. panda_usb_process_can_rx p ok msg = Inr p'"
proof (cases ok)
  case True
  with decode_msg_Inr [OF assms] show ?thesis
    by (simp add: process_can_rx_skb)
next
  case False
  then show ?thesis
    by (simp add: process_can_rx_no_skb)
qed

lemma process_all_Inr:
  "\<forall>m \<in> set msgs. length (data m) = 8 \<Longrightarrow> \<exists>p'. process_all alloc n msgs p = Inr p'"
proof (induction msgs arbitrary: n p)
  case Nil
  then show ?case by simp
next
  case (Cons m msgs)
  then obtain p1 where "panda_usb_process_can_rx p (alloc (Suc n)) m = Inr p1"
    using process_can_rx_Inr [of m p "alloc (Suc n)"] by auto
  with Cons show ?case by simp
qed

lemma process_all_delivered:
  assumes "\<forall>k. alloc k"
  shows "process_all alloc n msgs p = Inr p' \<Longrightarrow>
     map Inr (delivered (trace p')) = map Inr (delivered (trace p)) @ map decode_msg msgs"
proof (induction msgs arbitrary: n p)
  case Nil
  then show ?case by simp
next
  case (Cons m msgs)
  from assms have a: "alloc (Suc n)" by simp
  from Cons.prems a obtain p1 where p1: "panda_usb_process_can_rx p True m = Inr p1"
    and r: "process_all alloc (Suc n) msgs p1 = Inr p'"
    by (cases "panda_usb_process_can_rx p True m") simp_all
  from p1 obtain cf where d: "decode_msg m = Inr cf"
    by (cases "decode_msg m") (simp_all add: panda_usb_process_can_rx_def)
  with p1 have "delivered (trace p1) = delivered (trace p) @ [cf]"
    by (auto simp: process_can_rx_skb delivered_append)
  with Cons.IH [OF r] d show ?case
    by simp
qed


lemma read_msg_data_length:
  "pos + PANDA_MSG_SIZE \<le> length buf \<Longrightarrow> length (data (read_msg buf pos)) = 8"
  by (simp add: read_msg_def PANDA_MSG_SIZE_def)

lemma leading_msgs_data_length:
  assumes "actual_length urb \<le> length (transfer_buffer urb)"
  shows "\<forall>m \<in> set (leading_msgs urb). length (data m) = 8"
proof
  fix m
  assume "m \<in> set (leading_msgs urb)"
  then obtain k where k: "k < actual_length urb div PANDA_MSG_SIZE"
    and m: "m = read_msg (transfer_buffer urb) (PANDA_MSG_SIZE * k)"
    by (auto simp: leading_msgs_def)
  from k have "PANDA_MSG_SIZE * Suc k \<le> actual_length urb"
    by (simp add: PANDA_MSG_SIZE_def less_eq_div_iff_mult_less_eq Suc_le_eq)
  with assms have "PANDA_MSG_SIZE * k + PANDA_MSG_SIZE \<le> length (transfer_buffer urb)"
    by simp
  then show "length (data m) = 8"
    unfolding m by (rule read_msg_data_length)
qed

lemma rx_loop_process_all:
  assumes "actual_length urb \<le> length (transfer_buffer urb)"
  shows "m = actual_length urb div PANDA_MSG_SIZE - k \<Longrightarrow> k \<le> actual_length urb div PANDA_MSG_SIZE \<Longrightarrow>
     rx_loop alloc urb (PANDA_MSG_SIZE * k) n p =
       (case process_all alloc n
               (map (\<lambda>k. read_msg (transfer_buffer urb) (PANDA_MSG_SIZE * k))
                  [k ..< actual_length urb div PANDA_MSG_SIZE]) p of
          Inl f \<Rightarrow> Inl f
        | Inr p' \<Rightarrow>
            Inr (if actual_length urb mod PANDA_MSG_SIZE \<noteq> 0
                 then emit (Log Err ''format error'' []) p' else p'))"
proof (induction m arbitrary: k n p)
  case 0
  then have k: "k = actual_length urb div PANDA_MSG_SIZE"
    by simp
  have pos: "PANDA_MSG_SIZE * k = actual_length urb - actual_length urb mod PANDA_MSG_SIZE"
    unfolding k by (simp add: minus_mod_eq_mult_div)
  show ?case
  proof (cases "actual_length urb mod PANDA_MSG_SIZE = 0")
    case True
    with pos have "\<not> PANDA_MSG_SIZE * k < actual_length urb"
      by simp
    then show ?thesis
      using True k by (subst rx_loop.simps) simp
  next
    case False
    then have "0 < actual_length urb mod PANDA_MSG_SIZE" by simp
    moreover have "actual_length urb mod PANDA_MSG_SIZE < PANDA_MSG_SIZE"
      by (simp add: PANDA_MSG_SIZE_def)
    moreover have "actual_length urb mod PANDA_MSG_SIZE \<le> actual_length urb"
      by (rule mod_less_eq_dividend)
    ultimately have "PANDA_MSG_SIZE * k < actual_length urb"
      and "PANDA_MSG_SIZE * k + PANDA_MSG_SIZE > actual_length urb"
      unfolding pos by linarith+
    then show ?thesis
      using False k by (subst rx_loop.simps) simp
  qed
next
  case (Suc m)
  then have k: "k < actual_length urb div PANDA_MSG_SIZE"
    by simp
  then have le: "PANDA_MSG_SIZE * k + PANDA_MSG_SIZE \<le> actual_length urb"
    by (simp add: PANDA_MSG_SIZE_def less_eq_div_iff_mult_less_eq Suc_le_eq)
  then have lt: "PANDA_MSG_SIZE * k < actual_length urb"
    by (simp add: PANDA_MSG_SIZE_def)
  from le assms have at: "msg_at (transfer_buffer urb) (PANDA_MSG_SIZE * k) =
      Inr (read_msg (transfer_buffer urb) (PANDA_MSG_SIZE * k))"
    by (simp add: msg_at_def)
  have ih: "rx_loop alloc urb (PANDA_MSG_SIZE * Suc k) (Suc n) q =
       (case process_all alloc (Suc n)
               (map (\<lambda>k. read_msg (transfer_buffer urb) (PANDA_MSG_SIZE * k))
                  [Suc k ..< actual_length urb div PANDA_MSG_SIZE]) q of
          Inl f \<Rightarrow> Inl f
        | Inr p' \<Rightarrow>
            Inr (if actual_length urb mod PANDA_MSG_SIZE \<noteq> 0
                 then emit (Log Err ''format error'' []) p' else p'))" for q
    using Suc.prems k by (intro Suc.IH) simp_all
  have step: "PANDA_MSG_SIZE * k + PANDA_MSG_SIZE = PANDA_MSG_SIZE * Suc k"
    by simp
  show ?case
    using le lt k
    by (subst rx_loop.simps)
       (simp add: at step ih upt_conv_Cons split: sum.splits del: mult_Suc_right)
qed


lemma resubmit_urb_stats [simp]: "stats (resubmit_urb retval p) = stats p"
  by (simp add: resubmit_urb_def Let_def netif_device_detach_def)

lemma read_int_callback_ok:
  assumes "device_present p" and "status urb = 0"
      and "actual_length urb \<le> length (transfer_buffer urb)"
  shows "panda_usb_read_int_callback alloc retval p urb =
     (case process_all alloc 0 (leading_msgs urb) p of
        Inl f \<Rightarrow> Inl f
      | Inr p' \<Rightarrow>
          Inr (resubmit_urb retval
                 (if actual_length urb mod PANDA_MSG_SIZE \<noteq> 0
                  then emit (Log Err ''format error'' []) p' else p')))"
proof -
  have "rx_loop alloc urb (PANDA_MSG_SIZE * 0) 0 p =
       (case process_all alloc 0 (leading_msgs urb) p of
          Inl f \<Rightarrow> Inl f
        | Inr p' \<Rightarrow>
            Inr (if actual_length urb mod PANDA_MSG_SIZE \<noteq> 0
                 then emit (Log Err ''format error'' []) p' else p'))"
    unfolding leading_msgs_def using assms(3) by (intro rx_loop_process_all) simp_all
  then show ?thesis
    using assms(1,2) by (simp add: panda_usb_read_int_callback_def split: sum.splits)
qed

text \<open>
  Claim C6. Let the read callback run on a present device with a successful status and a
  received length that is not a multiple of the message size (and that lies inside the
  transfer buffer). Then every complete leading message, \<open>actual_length div 16\<close> of
  them, is passed to \<open>panda_usb_process_can_rx\<close> in buffer order and none of these calls
  faults; after them the callback logs the format error for the remaining bytes, reads
  nothing of them, and resubmits the URB. When \<open>alloc_can_skb\<close> always returns a buffer,
  the frames handed to \<open>netif_rx\<close> are the decodings of the leading messages, in order.
\<close>
theorem rx_partial_tail:
  assumes "device_present p" and "status urb = 0"
      and "actual_length urb \<le> length (transfer_buffer urb)"
      and "actual_length urb mod PANDA_MSG_SIZE \<noteq> 0"
  shows "\<exists>p'. process_all alloc 0 (leading_msgs urb) p = Inr p' \<and>
           length (leading_msgs urb) = actual_length urb div PANDA_MSG_SIZE \<and>
           panda_usb_read_int_callback alloc retval p urb =
             Inr (resubmit_urb retval (emit (Log Err ''format error'' []) p')) \<and>
           ((\<forall>n. alloc n) \<longrightarrow>
              map Inr (delivered (trace p')) =
              map Inr (delivered (trace p)) @ map decode_msg (leading_msgs urb))"
proof -
  obtain p' where p': "process_all alloc 0 (leading_msgs urb) p = Inr p'"
    using process_all_Inr [OF leading_msgs_data_length [OF assms(3)]] by blast
  have "panda_usb_read_int_callback alloc retval p urb =
          Inr (resubmit_urb retval (emit (Log Err ''format error'' []) p'))"
    using assms(4) by (simp add: read_int_callback_ok [OF assms(1,2,3)] p')
  moreover have "length (leading_msgs urb) = actual_length urb div PANDA_MSG_SIZE"
    by (simp add: leading_msgs_def)
  moreover have "map Inr (delivered (trace p')) =
      map Inr (delivered (trace p)) @ map decode_msg (leading_msgs urb)" if "\<forall>n. alloc n"
    using that p' by (rule process_all_delivered)
  ultimately show ?thesis
    using p' by blast
qed

theorem rx_partial_tail_witness:
  "device_present (panda_init_ctx probe_priv) \<and> status rx_urb_3 = 0 \<and>
   actual_length rx_urb_3 \<le> length (transfer_buffer rx_urb_3) \<and>
   actual_length rx_urb_3 mod PANDA_MSG_SIZE = 5 \<and>
   (\<exists>p'. process_all (\<lambda>n. True) 0 (leading_msgs rx_urb_3) (panda_init_ctx probe_priv) = Inr p' \<and>
           length (leading_msgs rx_urb_3) = 2 \<and>
           panda_usb_read_int_callback (\<lambda>n. True) 0 (panda_init_ctx probe_priv) rx_urb_3 =
             Inr (resubmit_urb 0 (emit (Log Err ''format error'' []) p')) \<and>
           map Inr (delivered (trace p')) =
             map Inr (delivered (trace (panda_init_ctx probe_priv))) @
             map decode_msg (leading_msgs rx_urb_3))"
proof -
  have a: "device_present (panda_init_ctx probe_priv)"
    by (simp add: panda_init_ctx_def probe_priv_def)
  have b: "status rx_urb_3 = 0"
    and c: "actual_length rx_urb_3 \<le> length (transfer_buffer rx_urb_3)"
    and d: "actual_length rx_urb_3 mod PANDA_MSG_SIZE = 5"
    and e: "actual_length rx_urb_3 div PANDA_MSG_SIZE = 2"
    by (simp_all add: rx_urb_3_def PANDA_MSG_SIZE_def)
  from d have d': "actual_length rx_urb_3 mod PANDA_MSG_SIZE \<noteq> 0"
    by simp
  from rx_partial_tail [OF a b c d', of "\<lambda>n. True" 0] a b c d e show ?thesis
    by simp
qed

text \<open>
  Claim C9 fails on the receive path: a message for which \<open>alloc_can_skb\<close> returns no
  buffer leaves the whole state, and with it every statistics counter, as it was.
\<close>
theorem rx_drop_counterexample:
  "panda_usb_process_can_rx (panda_init_ctx probe_priv) False msg_dlc15 =
     Inr (panda_init_ctx probe_priv)"
  by (simp add: panda_usb_process_can_rx_def)


lemma resubmit_urb_delivered [simp]:
  "delivered (trace (resubmit_urb retval p)) = delivered (trace p)"
  by (simp add: resubmit_urb_def Let_def netif_device_detach_def delivered_append)

lemma start_xmit_invalid:
  assumes "8 < unat (can_dlc f)"
  shows "\<exists>p'. panda_usb_start_xmit env p f = Inr (NETDEV_TX_OK, p') \<and>
           tx_dropped (stats p') = tx_dropped (stats p) + 1"
  using assms by (simp add: panda_usb_start_xmit_def can_dropped_invalid_skb_def)

lemma start_xmit_failed_dropped:
  assumes "length (can_data f) = 8" and "unat (can_dlc f) \<le> 8"
      and "fst (panda_usb_get_free_ctx p f) \<noteq> None" and "xmit_fails env"
  shows "\<exists>p'. panda_usb_start_xmit env p f = Inr (NETDEV_TX_OK, p') \<and>
           tx_dropped (stats p') = tx_dropped (stats p) + 1"
proof -
  from assms(3) obtain ctx where f: "find_free_ctx 0 (tx_context p) = Some ctx"
    by (auto simp: get_free_ctx_fst)
  from assms(4) have e: "\<And>q m. fst (panda_usb_xmit env q m ctx) \<noteq> 0"
    by (simp only: xmit_err)
  show ?thesis
    using e by (simp add: start_xmit_acquired [OF assms(1,2) get_free_ctx_Some [OF f]] Let_def)
qed

lemma read_int_callback_tail_only:
  assumes "device_present p" and "status urb = 0"
      and "0 < actual_length urb" and "actual_length urb < PANDA_MSG_SIZE"
      and "actual_length urb \<le> length (transfer_buffer urb)"
  shows "panda_usb_read_int_callback alloc retval p urb =
           Inr (resubmit_urb retval (emit (Log Err ''format error'' []) p))"
  using assms(3,4)
  by (simp add: read_int_callback_ok [OF assms(1,2,5)] leading_msgs_def)

text \<open>
  Claim C9, as amended. On the receive path only delivered frames are counted: a message
  for which \<open>alloc_can_skb\<close> returns no buffer is discarded with the state unchanged; a
  message that is delivered adds one to \<open>rx_packets\<close> and its DLC to \<open>rx_bytes\<close>; a
  read that holds only a partial message is logged and resubmitted with no statistics
  counter changed and nothing delivered. On the transmit path a frame rejected by
  \<open>can_dropped_invalid_skb\<close> and a frame whose submission fails each add one to
  \<open>tx_dropped\<close>.
\<close>
theorem drop_accounting:
  "panda_usb_process_can_rx p False msg = Inr p \<and>
   (decode_msg msg = Inr cf \<longrightarrow>
      (\<exists>p'. panda_usb_process_can_rx p True msg = Inr p' \<and>
            rx_packets (stats p') = rx_packets (stats p) + 1 \<and>
            rx_bytes (stats p') = rx_bytes (stats p) + ucast (can_dlc cf) \<and>
            delivered (trace p') = delivered (trace p) @ [cf])) \<and>
   (device_present p \<and> status urb = 0 \<and> 0 < actual_length urb \<and>
    actual_length urb < PANDA_MSG_SIZE \<and> actual_length urb \<le> length (transfer_buffer urb) \<longrightarrow>
      (\<exists>p'. panda_usb_read_int_callback alloc retval p urb = Inr p' \<and>
            stats p' = stats p \<and> delivered (trace p') = delivered (trace p))) \<and>
   (8 < unat (can_dlc f) \<longrightarrow>
      (\<exists>p'. panda_usb_start_xmit env p f = Inr (NETDEV_TX_OK, p') \<and>
            tx_dropped (stats p') = tx_dropped (stats p) + 1)) \<and>
   (length (can_data f) = 8 \<and> unat (can_dlc f) \<le> 8 \<and>
    fst (panda_usb_get_free_ctx p f) \<noteq> None \<and> xmit_fails env \<longrightarrow>
      (\<exists>p'. panda_usb_start_xmit env p f = Inr (NETDEV_TX_OK, p') \<and>
            tx_dropped (stats p') = tx_dropped (stats p) + 1))"
proof (intro conjI impI)
  show "panda_usb_process_can_rx p False msg = Inr p"
    by (rule process_can_rx_no_skb)
next
  assume "decode_msg msg = Inr cf"
  then show "\<exists>p'. panda_usb_process_can_rx p True msg = Inr p' \<and>
            rx_packets (stats p') = rx_packets (stats p) + 1 \<and>
            rx_bytes (stats p') = rx_bytes (stats p) + ucast (can_dlc cf) \<and>
            delivered (trace p') = delivered (trace p) @ [cf]"
    by (simp add: process_can_rx_skb delivered_append)
next
  assume "device_present p \<and> status urb = 0 \<and> 0 < actual_length urb \<and>
    actual_length urb < PANDA_MSG_SIZE \<and> actual_length urb \<le> length (transfer_buffer urb)"
  then have "panda_usb_read_int_callback alloc retval p urb =
           Inr (resubmit_urb retval (emit (Log Err ''format error'' []) p))"
    by (intro read_int_callback_tail_only) simp_all
  then show "\<exists>p'. panda_usb_read_int_callback alloc retval p urb = Inr p' \<and>
            stats p' = stats p \<and> delivered (trace p') = delivered (trace p)"
    by (simp add: delivered_append)
next
  assume "8 < unat (can_dlc f)"
  then show "\<exists>p'. panda_usb_start_xmit env p f = Inr (NETDEV_TX_OK, p') \<and>
            tx_dropped (stats p') = tx_dropped (stats p) + 1"
    by (rule start_xmit_invalid)
next
  assume "length (can_data f) = 8 \<and> unat (can_dlc f) \<le> 8 \<and>
    fst (panda_usb_get_free_ctx p f) \<noteq> None \<and> xmit_fails env"
  then show "\<exists>p'. panda_usb_start_xmit env p f = Inr (NETDEV_TX_OK, p') \<and>
            tx_dropped (stats p') = tx_dropped (stats p) + 1"
    by (intro start_xmit_failed_dropped) simp_all
qed


theorem drop_accounting_witness:
  "panda_usb_process_can_rx (panda_init_ctx probe_priv) False msg_dlc15 = Inr (panda_init_ctx probe_priv) \<and>
   decode_msg msg_dlc15 = Inr frame_of_msg_dlc15 \<and>
   (\<exists>p'. panda_usb_process_can_rx (panda_init_ctx probe_priv) True msg_dlc15 = Inr p' \<and>
         rx_packets (stats p') = rx_packets (stats (panda_init_ctx probe_priv)) + 1 \<and>
         rx_bytes (stats p') =
           rx_bytes (stats (panda_init_ctx probe_priv)) + ucast (can_dlc frame_of_msg_dlc15) \<and>
         delivered (trace p') = delivered (trace (panda_init_ctx probe_priv)) @ [frame_of_msg_dlc15]) \<and>
   device_present (panda_init_ctx probe_priv) \<and> status rx_urb_tail = 0 \<and>
   0 < actual_length rx_urb_tail \<and> actual_length rx_urb_tail < PANDA_MSG_SIZE \<and>
   actual_length rx_urb_tail \<le> length (transfer_buffer rx_urb_tail) \<and>
   (\<exists>p'. panda_usb_read_int_callback (\<lambda>n. True) 0 (panda_init_ctx probe_priv) rx_urb_tail = Inr p' \<and>
         stats p' = stats (panda_init_ctx probe_priv) \<and>
         delivered (trace p') = delivered (trace (panda_init_ctx probe_priv))) \<and>
   8 < unat (can_dlc frame_dlc9) \<and>
   (\<exists>p'. panda_usb_start_xmit enomem_env (panda_init_ctx probe_priv) frame_dlc9 = Inr (NETDEV_TX_OK, p') \<and>
         tx_dropped (stats p') = tx_dropped (stats (panda_init_ctx probe_priv)) + 1) \<and>
   length (can_data frame_123) = 8 \<and> unat (can_dlc frame_123) \<le> 8 \<and>
   fst (panda_usb_get_free_ctx (panda_init_ctx probe_priv) frame_123) \<noteq> None \<and>
   xmit_fails enomem_env \<and>
   (\<exists>p'. panda_usb_start_xmit enomem_env (panda_init_ctx probe_priv) frame_123 = Inr (NETDEV_TX_OK, p') \<and>
         tx_dropped (stats p') = tx_dropped (stats (panda_init_ctx probe_priv)) + 1)"
proof -
  have a: "decode_msg msg_dlc15 = Inr frame_of_msg_dlc15"
    by code_simp
  have b: "device_present (panda_init_ctx probe_priv)"
    by (simp add: panda_init_ctx_def probe_priv_def)
  have c: "status rx_urb_tail = 0" "0 < actual_length rx_urb_tail"
    "actual_length rx_urb_tail < PANDA_MSG_SIZE"
    "actual_length rx_urb_tail \<le> length (transfer_buffer rx_urb_tail)"
    by (simp_all add: rx_urb_tail_def PANDA_MSG_SIZE_def)
  have d: "8 < unat (can_dlc frame_dlc9)"
    by (simp add: frame_dlc9_def)
  have e: "length (can_data frame_123) = 8" "unat (can_dlc frame_123) \<le> 8"
    by (simp_all add: frame_123_def)
  have "fst (panda_usb_get_free_ctx (panda_init_ctx probe_priv) frame_123) = Some 0"
    by code_simp
  then have f: "fst (panda_usb_get_free_ctx (panda_init_ctx probe_priv) frame_123) \<noteq> None"
    by simp
  have g: "xmit_fails enomem_env"
    by (simp add: xmit_fails_def enomem_env_def)
  from drop_accounting [of "panda_init_ctx probe_priv" msg_dlc15 frame_of_msg_dlc15 rx_urb_tail
      "\<lambda>n. True" 0 frame_dlc9 enomem_env]
    drop_accounting [of "panda_init_ctx probe_priv" msg_dlc15 frame_of_msg_dlc15 rx_urb_tail
      "\<lambda>n. True" 0 frame_123 enomem_env]
    a b c d e f g
  show ?thesis
    by simp
qed

end
